theory Spec2Isabelle
  imports Main "HOL-Library.Log_Nat" "HOL-Library.Word"
begin

section \<open>Strings\<close>

text \<open>
  A JavaScript string is a sequence of UTF-16 code units, and \<open>length\<close> counts code
  units. \<open>js\<close> turns an ASCII literal into its code units.
\<close>

type_synonym jschar = "16 word"

type_synonym jsstring = "jschar list"

definition js :: "string \<Rightarrow> jsstring" where
  "js s = map of_char s"

text \<open>
  White space and line terminators, as \<open>String.prototype.trim\<close> and \<open>parseInt\<close> strip
  them: TAB, LF, VT, FF, CR, SP, NBSP, U+1680, U+2000..U+200A, LS, PS, U+202F, U+205F,
  U+3000 and the byte order mark.
\<close>

definition isWhiteSpace :: "jschar \<Rightarrow> bool" where
  "isWhiteSpace c \<longleftrightarrow>
     c = 9 \<or> c = 10 \<or> c = 11 \<or> c = 12 \<or> c = 13 \<or> c = 32 \<or> c = 160 \<or> c = 5760 \<or>
     (8192 \<le> c \<and> c \<le> 8202) \<or> c = 8232 \<or> c = 8233 \<or> c = 8239 \<or> c = 8287 \<or>
     c = 12288 \<or> c = 65279"

definition trimStart :: "jsstring \<Rightarrow> jsstring" where
  "trimStart s = dropWhile isWhiteSpace s"

definition trim :: "jsstring \<Rightarrow> jsstring" where
  "trim s = rev (dropWhile isWhiteSpace (rev (dropWhile isWhiteSpace s)))"

text \<open>
  Lower-casing of the letters \<open>A\<close>..\<open>Z\<close>, which move up by 32; every other code unit stays.
  This is how \<open>Headers\<close> compares the names of headers. (\<open>String.prototype.toLowerCase\<close>
  is a parameter of the handler, see \<open>World\<close> below; on a text of Basic Latin code units
  it gives the same.)
\<close>

definition asciiLowerCase :: "jsstring \<Rightarrow> jsstring" where
  "asciiLowerCase s = map (\<lambda>c. if 65 \<le> c \<and> c \<le> 90 then c + 32 else c) s"

text \<open>The decimal digits of a non-negative integer, most significant first.\<close>

function decimal :: "int \<Rightarrow> jsstring" where
  "decimal n =
     (if n < 10 then [word_of_int (48 + n)]
      else decimal (n div 10) @ [word_of_int (48 + n mod 10)])"
  by pat_completeness auto
termination
  by (relation "measure nat") auto

declare decimal.simps [simp del]

section \<open>Numbers\<close>

text \<open>
  A JavaScript Number is an IEEE 754 double. Two kinds of Number occur in the worker:
  \<^item> the counts: results of \<open>parseInt\<close> and their sums, which are integers or NaN
    (type \<open>jsnum\<close>);
  \<^item> the quotient \<open>absNum / 1000\<close> of \<open>formatNumber\<close>, a double that need not be an
    integer (type \<open>jsfloat\<close>: \<open>Dbl m e\<close> is the double \<open>m * 2 ^ e\<close>, with a mantissa
    \<open>m\<close> of at most 53 bits).
  Infinities and the sign of zero are not modelled: the first need a sum or a literal
  beyond about \<open>1.8 * 10 ^ 308\<close>, and the worker treats \<open>-0\<close> as \<open>0\<close> everywhere.
\<close>

datatype jsnum = Num int | NaN

datatype jsfloat = Dbl int int | FNaN

text \<open>
  Rounding to nearest, ties to even, of the quotient \<open>p / q\<close> of two integers with
  \<open>0 \<le> p\<close> and \<open>0 < q\<close>.
\<close>

definition rhe_div :: "int \<Rightarrow> int \<Rightarrow> int" where
  "rhe_div p q =
     (let d = p div q; r = p mod q
      in if 2 * r < q then d
         else if q < 2 * r then d + 1
         else if even d then d else d + 1)"

text \<open>
  The nearest double of an integer: integers of at most 53 bits are doubles; a longer
  one is rounded to 53 significant bits.
\<close>

definition rd53 :: "int \<Rightarrow> int" where
  "rd53 z =
     (if \<bar>z\<bar> \<le> 2 ^ 53 then z
      else let sh = nat (bitlen \<bar>z\<bar> - 53)
           in sgn z * rhe_div \<bar>z\<bar> (2 ^ sh) * 2 ^ sh)"

text \<open>\<open>flog2 a b\<close> is \<open>\<lfloor>log\<^sub>2 (a / b)\<rfloor>\<close> for positive \<open>a\<close> and \<open>b\<close>.\<close>

definition flog2 :: "int \<Rightarrow> int \<Rightarrow> int" where
  "flog2 a b =
     (let k = bitlen a - bitlen b
      in if (if 0 \<le> k then b * 2 ^ nat k \<le> a else b \<le> a * 2 ^ nat (- k)) then k
         else k - 1)"

text \<open>
  The operators of the source on these numbers. A comparison with NaN is false,
  arithmetic on NaN is NaN. \<open>js_div\<close> is the correctly rounded IEEE division
  for operands of which the divisor is positive (the worker divides by the literals
  1000 and 1000000 only): the mantissa has 53 bits.
\<close>

fun js_lt :: "jsnum \<Rightarrow> jsnum \<Rightarrow> bool" where
  "js_lt (Num a) (Num b) = (a < b)"
| "js_lt _ _ = False"

fun js_add :: "jsnum \<Rightarrow> jsnum \<Rightarrow> jsnum" where
  "js_add (Num a) (Num b) = Num (rd53 (a + b))"
| "js_add _ _ = NaN"

fun Math_abs :: "jsnum \<Rightarrow> jsnum" where
  "Math_abs (Num a) = Num \<bar>a\<bar>"
| "Math_abs NaN = NaN"

fun Math_trunc :: "jsnum \<Rightarrow> jsnum" where
  "Math_trunc (Num a) = Num a"
| "Math_trunc NaN = NaN"

definition div_pos :: "int \<Rightarrow> int \<Rightarrow> jsfloat" where
  "div_pos a b =
     (let e = flog2 a b - 52
      in Dbl (if 0 \<le> e then rhe_div a (b * 2 ^ nat e) else rhe_div (a * 2 ^ nat (- e)) b) e)"

fun js_div :: "jsnum \<Rightarrow> int \<Rightarrow> jsfloat" where
  "js_div (Num a) b =
     (if a = 0 then Dbl 0 0
      else if a < 0 then (case div_pos (- a) b of Dbl m e \<Rightarrow> Dbl (- m) e | FNaN \<Rightarrow> FNaN)
      else div_pos a b)"
| "js_div NaN b = FNaN"

text \<open>\<open>x % 1 === 0\<close>: the double is an integer.\<close>

fun isWhole :: "jsfloat \<Rightarrow> bool" where
  "isWhole (Dbl m e) = (if 0 \<le> e then True else 2 ^ nat (- e) dvd m)"
| "isWhole FNaN = False"

text \<open>
  \<open>Number::toString\<close> in radix 10 for a Number that is a non-negative integer \<open>x\<close>. It
  takes integers \<open>n\<close>, \<open>k\<close> and \<open>s\<close> with \<open>10 ^ (k - 1) \<le> s < 10 ^ k\<close> for which
  \<open>s * 10 ^ (n - k)\<close> has the Number value \<open>x\<close>, with \<open>k\<close> as small as possible; of several
  \<open>s\<close> it takes the one nearest to \<open>x\<close>, and the even one of two at the same distance
  (the standard leaves the last digit open and recommends this choice, which V8
  follows). The result is the digits of \<open>s\<close> followed by \<open>n - k\<close> zeros when \<open>n \<le> 21\<close>,
  and the exponent notation otherwise.

  Up to \<open>2 ^ 53\<close> every integer is a Number of its own, so the digits are those of \<open>x\<close>.
  Beyond, \<open>n\<close> is the number of digits of \<open>x\<close>, or one more when \<open>x\<close> is rounded up to a
  power of ten, and \<open>s\<close> is the quotient of \<open>x\<close> by \<open>10 ^ (n - k)\<close> or the successor of
  the quotient; seventeen digits identify every double.
\<close>

definition roundTrips :: "int \<Rightarrow> nat \<Rightarrow> int \<times> nat \<Rightarrow> bool" where
  "roundTrips x k c \<longleftrightarrow>
     (case c of (s, n) \<Rightarrow> 10 ^ (k - 1) \<le> s \<and> s < 10 ^ k \<and> rd53 (s * 10 ^ (n - k)) = x)"

definition candidates :: "int \<Rightarrow> nat \<Rightarrow> nat \<Rightarrow> (int \<times> nat) list" where
  "candidates x k n =
     filter (roundTrips x k)
       [(x div 10 ^ (n - k), n), (x div 10 ^ (n - k) + 1, n),
        (x div 10 ^ (n + 1 - k) + 1, n + 1)]"

definition distanceTo :: "int \<Rightarrow> nat \<Rightarrow> int \<times> nat \<Rightarrow> int" where
  "distanceTo x k c = (case c of (s, n) \<Rightarrow> \<bar>s * 10 ^ (n - k) - x\<bar>)"

fun closest :: "int \<Rightarrow> nat \<Rightarrow> (int \<times> nat) list \<Rightarrow> (int \<times> nat) option" where
  "closest x k [] = None"
| "closest x k (c # cs) =
     (case closest x k cs of
        None \<Rightarrow> Some c
      | Some d \<Rightarrow>
          if distanceTo x k c < distanceTo x k d \<or>
             (distanceTo x k c = distanceTo x k d \<and> even (fst c))
          then Some c
          else Some d)"

text \<open>
  \<open>shortestFrom i x k n\<close> tries \<open>k\<close>, \<open>k + 1\<close>, \<dots> digits, \<open>i\<close> times, for an \<open>x\<close> of \<open>n\<close>
  digits, and gives \<open>s\<close>, \<open>k\<close> and \<open>n\<close>.
\<close>

fun shortestFrom :: "nat \<Rightarrow> int \<Rightarrow> nat \<Rightarrow> nat \<Rightarrow> int \<times> nat \<times> nat" where
  "shortestFrom 0 x k n = (x, n, n)"
| "shortestFrom (Suc i) x k n =
     (case closest x k (candidates x k n) of
        Some (s, n') \<Rightarrow> (s, k, n')
      | None \<Rightarrow> shortestFrom i x (Suc k) n)"

definition Number_toString :: "int \<Rightarrow> jsstring" where
  "Number_toString x =
     (if x \<le> 2 ^ 53 then decimal x
      else case shortestFrom 17 x 1 (length (decimal x)) of
        (s, k, n) \<Rightarrow>
          if n \<le> 21 then decimal s @ replicate (n - k) 48
          else if k = 1 then decimal s @ js ''e+'' @ decimal (int n - 1)
          else take 1 (decimal s) @ js ''.'' @ drop 1 (decimal s) @ js ''e+'' @
                 decimal (int n - 1))"

text \<open>Number to string, as a template literal does it.\<close>

fun toString :: "jsnum \<Rightarrow> jsstring" where
  "toString (Num a) = (if a < 0 then js ''-'' else []) @ Number_toString \<bar>a\<bar>"
| "toString NaN = js ''NaN''"

text \<open>
  \<open>Number.prototype.toFixed\<close> with \<open>f\<close> fraction digits. From \<open>10 ^ 21\<close> on the result is
  that of \<open>Number::toString\<close>; such a double has no negative exponent. Below, \<open>n\<close> is
  the integer for which \<open>n / 10 ^ f\<close> is nearest to the exact value of the double, the
  larger one of two; its digits are padded with zeros to \<open>f + 1\<close> places and the point
  is set before the last \<open>f\<close>.
\<close>

definition scaled_round :: "int \<Rightarrow> int \<Rightarrow> nat \<Rightarrow> int" where
  "scaled_round m e f =
     (if 0 \<le> e then m * 2 ^ nat e * 10 ^ f
      else (2 * m * 10 ^ f + 2 ^ nat (- e)) div (2 * 2 ^ nat (- e)))"

fun toFixed :: "jsfloat \<Rightarrow> nat \<Rightarrow> jsstring" where
  "toFixed FNaN f = js ''NaN''"
| "toFixed (Dbl m e) f =
     (let s = (if m < 0 then js ''-'' else [])
      in if 0 \<le> e \<and> 10 ^ 21 \<le> \<bar>m\<bar> * 2 ^ nat e then s @ Number_toString (\<bar>m\<bar> * 2 ^ nat e)
         else
           (let n = scaled_round \<bar>m\<bar> e f;
                ds = decimal n
            in if f = 0 then s @ ds
               else let ds' = replicate (f + 1 - length ds) 48 @ ds;
                        k = length ds'
                    in s @ take (k - f) ds' @ js ''.'' @ drop (k - f) ds'))"

subsection \<open>formatNumber\<close>

definition formatNumber :: "jsnum \<Rightarrow> jsstring" where
  "formatNumber num =
     (let isNegative = js_lt num (Num 0);
          absNum = Math_abs num;
          sign = (if isNegative then js ''-'' else [])
      in if js_lt absNum (Num 1000) then sign @ toString (Math_trunc absNum)
         else if js_lt absNum (Num 1000000) then
           (let formattedNum = js_div absNum 1000
            in sign @ toFixed formattedNum (if isWhole formattedNum then 0 else 1) @ js ''K'')
         else
           (let formattedNum = js_div absNum 1000000
            in sign @ toFixed formattedNum (if isWhole formattedNum then 0 else 1) @ js ''M''))"


subsection \<open>parseInt\<close>

text \<open>
  \<open>parseInt(string)\<close> without a radix: leading white space is skipped, a sign is read,
  the prefix \<open>0x\<close> or \<open>0X\<close> selects radix 16 (radix 10 otherwise), and the longest run of
  digits of that radix is the number; characters after it are ignored. With no digit
  at all the result is NaN. The value is rounded to the nearest double.
\<close>

definition digitValue :: "jschar \<Rightarrow> int" where
  "digitValue c =
     (if 48 \<le> c \<and> c \<le> 57 then uint c - 48
      else if 97 \<le> c \<and> c \<le> 122 then uint c - 87
      else if 65 \<le> c \<and> c \<le> 90 then uint c - 55
      else 36)"

definition isRadixDigit :: "int \<Rightarrow> jschar \<Rightarrow> bool" where
  "isRadixDigit R c \<longleftrightarrow> digitValue c < R"

definition parseInt :: "jsstring \<Rightarrow> jsnum" where
  "parseInt string =
     (let S = trimStart string;
          sign = (if S \<noteq> [] \<and> hd S = 45 then - 1 else 1);
          S = (if S \<noteq> [] \<and> (hd S = 43 \<or> hd S = 45) then tl S else S);
          hex = (take 2 S = js ''0x'' \<or> take 2 S = js ''0X'');
          R = (if hex then 16 else 10);
          S = (if hex then drop 2 S else S);
          Z = takeWhile (isRadixDigit R) S
      in if Z = [] then NaN
         else Num (rd53 (sign * foldl (\<lambda>n c. n * R + digitValue c) 0 Z)))"

section \<open>The report aggregator\<close>

text \<open>
  The analytics report, as the interfaces of the source declare it. A dimension value
  and a metric value are both an object with the one field \<open>value\<close>; the code reads
  it with \<open>value?.['value']\<close>, so an element may be null (\<open>None\<close>) and the field may be
  missing. A row without one of its two fields behaves as a row where that field is
  the empty list. Of a report only \<open>rows\<close> is read, and it may be absent.
\<close>

record ReportValue =
  "value" :: "jsstring option"

record ReportRow =
  dimensionValues :: "ReportValue option list"
  metricValues :: "ReportValue option list"

record Report =
  rows :: "ReportRow list option"

text \<open>\<open>Object.entries(row)\<close>: the pairs of key and value of a row.\<close>

definition entries :: "ReportRow \<Rightarrow> (jsstring \<times> ReportValue option list) list" where
  "entries row =
     [(js ''dimensionValues'', dimensionValues row), (js ''metricValues'', metricValues row)]"

definition flatMap :: "('a \<Rightarrow> 'b list) \<Rightarrow> 'a list \<Rightarrow> 'b list" where
  "flatMap f xs = concat (map f xs)"

text \<open>\<open>value => value?.['value']\<close>\<close>

definition valueOf :: "ReportValue option \<Rightarrow> jsstring option" where
  "valueOf v = (case v of None \<Rightarrow> None | Some x \<Rightarrow> value x)"

definition getValues :: "Report option \<Rightarrow> jsstring \<Rightarrow> jsstring option list" where
  "getValues analyticsResponse dimensionKey =
     map valueOf
       (flatMap (\<lambda>(_, values). values)
         (filter (\<lambda>(key, _). key = dimensionKey)
           (flatMap entries
             (case analyticsResponse of None \<Rightarrow> []
              | Some r \<Rightarrow> (case rows r of None \<Rightarrow> [] | Some rs \<Rightarrow> rs)))))"

text \<open>\<open>value => parseInt(value ?? '0')\<close>\<close>

definition parseMetric :: "jsstring option \<Rightarrow> jsnum" where
  "parseMetric v = parseInt (case v of None \<Rightarrow> js ''0'' | Some s \<Rightarrow> s)"

text \<open>
  The total of the handler:
  \<open>getValues(data, 'metricValues').map(value => parseInt(value ?? '0')).reduce((total, count) => total + count, 0)\<close>.
\<close>

definition counts :: "Report option \<Rightarrow> jsnum" where
  "counts data =
     foldl (\<lambda>total count. js_add total count) (Num 0)
       (map parseMetric (getValues data (js ''metricValues'')))"

text \<open>
  For the statements about sums: the integer of a number (0 for NaN), and the parsed
  metric values of a list of rows, row by row and slot by slot.
\<close>

fun the_int :: "jsnum \<Rightarrow> int" where
  "the_int (Num a) = a"
| "the_int NaN = 0"

definition parsedMetrics :: "ReportRow list \<Rightarrow> jsnum list" where
  "parsedMetrics rs = map (\<lambda>v. parseMetric (valueOf v)) (concat (map metricValues rs))"

section \<open>Dates\<close>

text \<open>
  A \<open>Date\<close> holds a time value: the milliseconds since 1970-01-01T00:00:00Z. The
  functions below are the abstract operations of ECMAScript on time values, under
  their names there. The Workers runtime keeps local time equal to UTC, so
  \<open>LocalTime\<close> and \<open>UTC\<close> are the identity. The clock of the runtime is far inside
  the range of valid time values (\<open>8.64 * 10 ^ 15\<close> either side of the epoch), where
  \<open>TimeClip\<close> is the identity, so \<open>TimeClip\<close> is left out.
\<close>

definition msPerDay :: int where
  "msPerDay = 86400000"

definition Day :: "int \<Rightarrow> int" where
  "Day t = t div msPerDay"

definition TimeWithinDay :: "int \<Rightarrow> int" where
  "TimeWithinDay t = t mod msPerDay"

definition DaysInYear :: "int \<Rightarrow> int" where
  "DaysInYear y =
     (if y mod 4 \<noteq> 0 then 365
      else if y mod 100 \<noteq> 0 then 366
      else if y mod 400 \<noteq> 0 then 365
      else 366)"

definition DayFromYear :: "int \<Rightarrow> int" where
  "DayFromYear y =
     365 * (y - 1970) + (y - 1969) div 4 - (y - 1901) div 100 + (y - 1601) div 400"

text \<open>
  \<open>YearFromTime t\<close> is the largest year \<open>y\<close> whose first day is not after \<open>t\<close>: the
  estimate from the mean length of a year is off by at most one year.
\<close>

definition YearFromTime :: "int \<Rightarrow> int" where
  "YearFromTime t =
     (let d = Day t; y = 1970 + (d * 400) div 146097
      in if DayFromYear (y + 1) \<le> d then y + 1
         else if d < DayFromYear y then y - 1
         else y)"

definition InLeapYear :: "int \<Rightarrow> int" where
  "InLeapYear t = (if DaysInYear (YearFromTime t) = 366 then 1 else 0)"

definition DayWithinYear :: "int \<Rightarrow> int" where
  "DayWithinYear t = Day t - DayFromYear (YearFromTime t)"

definition MonthFromTime :: "int \<Rightarrow> int" where
  "MonthFromTime t =
     (let d = DayWithinYear t; L = InLeapYear t
      in if d < 31 then 0
         else if d < 59 + L then 1
         else if d < 90 + L then 2
         else if d < 120 + L then 3
         else if d < 151 + L then 4
         else if d < 181 + L then 5
         else if d < 212 + L then 6
         else if d < 243 + L then 7
         else if d < 273 + L then 8
         else if d < 304 + L then 9
         else if d < 334 + L then 10
         else 11)"

definition DateFromTime :: "int \<Rightarrow> int" where
  "DateFromTime t =
     (let d = DayWithinYear t; L = InLeapYear t; m = MonthFromTime t
      in if m = 0 then d + 1
         else if m = 1 then d - 30
         else if m = 2 then d - 58 - L
         else if m = 3 then d - 89 - L
         else if m = 4 then d - 119 - L
         else if m = 5 then d - 150 - L
         else if m = 6 then d - 180 - L
         else if m = 7 then d - 211 - L
         else if m = 8 then d - 242 - L
         else if m = 9 then d - 272 - L
         else if m = 10 then d - 303 - L
         else d - 333 - L)"

definition HourFromTime :: "int \<Rightarrow> int" where
  "HourFromTime t = (t div 3600000) mod 24"

definition MinFromTime :: "int \<Rightarrow> int" where
  "MinFromTime t = (t div 60000) mod 60"

definition SecFromTime :: "int \<Rightarrow> int" where
  "SecFromTime t = (t div 1000) mod 60"

definition msFromTime :: "int \<Rightarrow> int" where
  "msFromTime t = t mod 1000"

text \<open>
  \<open>MakeDay year month date\<close>: the day number of the first of the month \<open>month\<close>
  (counted from 0, months beyond 11 carrying into the year) of \<open>year\<close>, plus
  \<open>date - 1\<close>. A \<open>date\<close> beyond the end of the month runs into the next month.
\<close>

definition monthStart :: "int \<Rightarrow> int \<Rightarrow> int" where
  "monthStart mn L =
     (if mn = 0 then 0
      else if mn = 1 then 31
      else if mn = 2 then 59 + L
      else if mn = 3 then 90 + L
      else if mn = 4 then 120 + L
      else if mn = 5 then 151 + L
      else if mn = 6 then 181 + L
      else if mn = 7 then 212 + L
      else if mn = 8 then 243 + L
      else if mn = 9 then 273 + L
      else if mn = 10 then 304 + L
      else 334 + L)"

definition MakeDay :: "int \<Rightarrow> int \<Rightarrow> int \<Rightarrow> int" where
  "MakeDay year month date =
     (let ym = year + month div 12; mn = month mod 12
      in DayFromYear ym + monthStart mn (if DaysInYear ym = 366 then 1 else 0) + date - 1)"

definition MakeDate :: "int \<Rightarrow> int \<Rightarrow> int" where
  "MakeDate day time = day * msPerDay + time"

text \<open>The methods of \<open>Date\<close> that the worker calls, on the time value.\<close>

definition getDate :: "int \<Rightarrow> int" where
  "getDate t = DateFromTime t"

definition setDate :: "int \<Rightarrow> int \<Rightarrow> int" where
  "setDate t dt = MakeDate (MakeDay (YearFromTime t) (MonthFromTime t) dt) (TimeWithinDay t)"

definition padStart :: "nat \<Rightarrow> jsstring \<Rightarrow> jsstring" where
  "padStart n s = replicate (n - length s) 48 @ s"

definition isoYear :: "int \<Rightarrow> jsstring" where
  "isoYear y =
     (if 0 \<le> y \<and> y \<le> 9999 then padStart 4 (decimal y)
      else (if y < 0 then js ''-'' else js ''+'') @ padStart 6 (decimal \<bar>y\<bar>))"

definition isoDate :: "int \<Rightarrow> jsstring" where
  "isoDate t =
     isoYear (YearFromTime t) @ js ''-'' @ padStart 2 (decimal (MonthFromTime t + 1)) @
     js ''-'' @ padStart 2 (decimal (DateFromTime t))"

definition toISOString :: "int \<Rightarrow> jsstring" where
  "toISOString t =
     isoDate t @ js ''T'' @ padStart 2 (decimal (HourFromTime t)) @ js '':'' @
     padStart 2 (decimal (MinFromTime t)) @ js '':'' @ padStart 2 (decimal (SecFromTime t)) @
     js ''.'' @ padStart 3 (decimal (msFromTime t)) @ js ''Z''"

text \<open>\<open>s.split('T')[0]\<close>: the part of \<open>s\<close> before the first \<open>T\<close>.\<close>

definition beforeT :: "jsstring \<Rightarrow> jsstring" where
  "beforeT s = takeWhile (\<lambda>c. c \<noteq> 84) s"

definition getTomorrowDate :: "int \<Rightarrow> jsstring" where
  "getTomorrowDate now =
     (let tomorrow = now;
          tomorrow = setDate tomorrow (getDate tomorrow + 1)
      in beforeT (toISOString tomorrow))"

section \<open>The badge renderer\<close>

definition getTextWidth :: "jsstring \<Rightarrow> int" where
  "getTextWidth text' =
     (let averageCharWidth = 8
      in int (length text') * averageCharWidth + 10)"

text \<open>
  \<open>s.replace(/pat/g, rep)\<close> for a literal, non-empty pattern and a replacement without
  \<open>$\<close>: the occurrences are found from left to right and do not overlap.
\<close>

function replaceAll :: "jsstring \<Rightarrow> jsstring \<Rightarrow> jsstring \<Rightarrow> jsstring" where
  "replaceAll pat rep s =
     (if s = [] then []
      else if pat \<noteq> [] \<and> take (length pat) s = pat
        then rep @ replaceAll pat rep (drop (length pat) s)
      else hd s # replaceAll pat rep (tl s))"
  by pat_completeness auto
termination
  by (relation "measure (\<lambda>(pat, rep, s). length s)") auto

declare replaceAll.simps [simp del]

text \<open>\<open>xs.join(sep)\<close>.\<close>

fun join :: "jsstring \<Rightarrow> jsstring list \<Rightarrow> jsstring" where
  "join sep [] = []"
| "join sep [x] = x"
| "join sep (x # y # ys) = x @ sep @ join sep (y # ys)"

text \<open>
  The replacement text of the source file is the four code units U+00E2, U+20AC,
  U+201D and \<open>>\<close>.
\<close>

definition arrowSubstitute :: jsstring where
  "arrowSubstitute = [226, 8364, 8221, 62]"

definition metadataComment :: "jsstring \<Rightarrow> jsstring" where
  "metadataComment item =
     js ''<!-- METADATA: '' @ replaceAll (js ''-->'') arrowSubstitute item @ js '' -->''"

text \<open>
  \<open>generateBadge\<close> for a \<open>value\<close> that is a string, as the handler passes it; then
  \<open>valueText\<close> is \<open>value\<close>. (For a number the source takes \<open>toLocaleString\<close>, which depends
  on the locale.) The template literal is the concatenation of its fixed texts and
  its substitutions, in order. The widths are even, so halving them gives integers.
\<close>

definition generateBadge :: "jsstring \<Rightarrow> jsstring \<Rightarrow> jsstring list \<Rightarrow> jsstring" where
  \<open>generateBadge label value' metadata =
     (let valueText = value';
          labelWidth = getTextWidth label;
          valueWidth = getTextWidth valueText;
          totalWidth = labelWidth + valueWidth;
          metadataComments = join [10] (map metadataComment metadata)
      in trim (concat [
         js ''<?xml version="1.0" encoding="UTF-8"?>'' @ [10] @
            js ''    <svg xmlns="http://www.w3.org/2000/svg" width="'',
         decimal totalWidth,
         js ''" height="20">'' @ [10, 9] @ js ''  '',
         metadataComments,
         [10] @ js ''      <linearGradient id="b" x2="0" y2="100%">'' @ [10] @
            js ''        <stop offset="0" stop-color="#bbb" stop-opacity=".1"/>'' @ [10] @
            js ''        <stop offset="1" stop-opacity=".1"/>'' @ [10] @
            js ''      </linearGradient>'' @ [10] @ js ''      <mask id="a">'' @ [10] @
            js ''        <rect width="'',
         decimal totalWidth,
         js ''" height="20" rx="3" fill="#fff"/>'' @ [10] @ js ''      </mask>'' @ [10] @
            js ''      <g mask="url(#a)">'' @ [10] @ js ''        <rect width="'',
         decimal labelWidth,
         js ''" height="20" fill="#555"/>'' @ [10] @ js ''        <rect x="'',
         decimal labelWidth,
         js ''" width="'',
         decimal valueWidth,
         js ''" height="20" fill="#4c1"/>'' @ [10] @ js ''        <rect width="'',
         decimal totalWidth,
         js ''" height="20" fill="url(#b)"/>'' @ [10] @ js ''      </g>'' @ [10] @
            js ''      <g fill="#fff" text-anchor="middle" font-family="DejaVu Sans,Verdana,Geneva,sans-serif" font-size="13">'' @
            [10] @ js ''        <text x="'',
         decimal (labelWidth div 2),
         js ''" y="15" fill="#010101" fill-opacity=".3">'',
         label,
         js ''</text>'' @ [10] @ js ''        <text x="'',
         decimal (labelWidth div 2),
         js ''" y="14">'',
         label,
         js ''</text>'' @ [10] @ js ''        <text x="'',
         decimal (labelWidth + valueWidth div 2),
         js ''" y="15" fill="#010101" fill-opacity=".3">'',
         valueText,
         js ''</text>'' @ [10] @ js ''        <text x="'',
         decimal (labelWidth + valueWidth div 2),
         js ''" y="14">'',
         valueText,
         js ''</text>'' @ [10] @ js ''      </g>'' @ [10] @ js ''    </svg>'']))\<close>

section \<open>JSON\<close>

datatype json = JString jsstring | JArray "json list" | JObject "(jsstring \<times> json) list"

definition hexDigit :: "int \<Rightarrow> jschar" where
  "hexDigit d = word_of_int (if d < 10 then 48 + d else 87 + d)"

definition unicodeEscape :: "jschar \<Rightarrow> jsstring" where
  "unicodeEscape c =
     [92, 117] @ [hexDigit (uint c div 4096), hexDigit (uint c div 256 mod 16),
       hexDigit (uint c div 16 mod 16), hexDigit (uint c mod 16)]"

definition isLeadingSurrogate :: "jschar \<Rightarrow> bool" where
  "isLeadingSurrogate c \<longleftrightarrow> 55296 \<le> c \<and> c \<le> 56319"

definition isTrailingSurrogate :: "jschar \<Rightarrow> bool" where
  "isTrailingSurrogate c \<longleftrightarrow> 56320 \<le> c \<and> c \<le> 57343"

definition quoteUnit :: "jschar \<Rightarrow> jsstring" where
  "quoteUnit c =
     (if c = 8 then [92, 98]
      else if c = 9 then [92, 116]
      else if c = 10 then [92, 110]
      else if c = 12 then [92, 102]
      else if c = 13 then [92, 114]
      else if c = 34 then [92, 34]
      else if c = 92 then [92, 92]
      else if c < 32 \<or> isLeadingSurrogate c \<or> isTrailingSurrogate c then unicodeEscape c
      else [c])"

text \<open>
  \<open>QuoteJSONString\<close>: a surrogate pair stands for one code point and is copied; a
  surrogate on its own is escaped.
\<close>

fun quoteUnits :: "jsstring \<Rightarrow> jsstring" where
  "quoteUnits [] = []"
| "quoteUnits [c] = quoteUnit c"
| "quoteUnits (c # d # cs) =
     (if isLeadingSurrogate c \<and> isTrailingSurrogate d then c # d # quoteUnits cs
      else quoteUnit c @ quoteUnits (d # cs))"

definition QuoteJSONString :: "jsstring \<Rightarrow> jsstring" where
  "QuoteJSONString s = [34] @ quoteUnits s @ [34]"

text \<open>
  \<open>serialize gap indent v\<close> is \<open>SerializeJSONProperty\<close> for a value at the indentation
  \<open>indent\<close>; \<open>gap\<close> is the indentation step (empty for the compact form).
\<close>

fun serialize :: "jsstring \<Rightarrow> jsstring \<Rightarrow> json \<Rightarrow> jsstring"
  and serializeElements :: "jsstring \<Rightarrow> jsstring \<Rightarrow> json list \<Rightarrow> jsstring list"
  and serializeMembers :: "jsstring \<Rightarrow> jsstring \<Rightarrow> (jsstring \<times> json) list \<Rightarrow> jsstring list"
where
  "serialize gap indent (JString s) = QuoteJSONString s"
| "serialize gap indent (JArray vs) =
     (if vs = [] then js ''[]''
      else if gap = [] then js ''['' @ join (js '','') (serializeElements gap (indent @ gap) vs) @ js '']''
      else js ''['' @ [10] @ (indent @ gap) @
           join (js '','' @ [10] @ (indent @ gap)) (serializeElements gap (indent @ gap) vs) @
           [10] @ indent @ js '']'')"
| "serialize gap indent (JObject kvs) =
     (if kvs = [] then js ''{}''
      else if gap = [] then js ''{'' @ join (js '','') (serializeMembers gap (indent @ gap) kvs) @ js ''}''
      else js ''{'' @ [10] @ (indent @ gap) @
           join (js '','' @ [10] @ (indent @ gap)) (serializeMembers gap (indent @ gap) kvs) @
           [10] @ indent @ js ''}'')"
| "serializeElements gap indent [] = []"
| "serializeElements gap indent (v # vs) =
     serialize gap indent v # serializeElements gap indent vs"
| "serializeMembers gap indent [] = []"
| "serializeMembers gap indent ((k, v) # kvs) =
     (QuoteJSONString k @ (if gap = [] then js '':'' else js '': '') @ serialize gap indent v) #
     serializeMembers gap indent kvs"

text \<open>\<open>JSON.stringify(v, null, space)\<close>; \<open>JSON.stringify(v)\<close> is \<open>JSON_stringify v 0\<close>.\<close>

definition JSON_stringify :: "json \<Rightarrow> nat \<Rightarrow> jsstring" where
  "JSON_stringify v space = serialize (replicate (min space 10) 32) [] v"

section \<open>Well-formed documents\<close>

text \<open>
  For the statements about the rendered badge: whether a text occurs in another, and
  whether a document is well-formed in the sense of XML 1.0.
\<close>

fun occursIn :: "jsstring \<Rightarrow> jsstring \<Rightarrow> bool" where
  "occursIn pat [] = (pat = [])"
| "occursIn pat (c # cs) = (take (length pat) (c # cs) = pat \<or> occursIn pat cs)"

text \<open>
  The characters of XML: \<open>Char\<close>, \<open>S\<close>, \<open>NameStartChar\<close> and \<open>NameChar\<close>, on code units. A
  character beyond the Basic Multilingual Plane is a leading surrogate followed by a
  trailing one; \<open>validChars\<close> checks a whole text.
\<close>

definition isBmpChar :: "jschar \<Rightarrow> bool" where
  "isBmpChar c \<longleftrightarrow>
     c = 9 \<or> c = 10 \<or> c = 13 \<or> (32 \<le> c \<and> c \<le> 55295) \<or> (57344 \<le> c \<and> c \<le> 65533)"

fun validChars :: "jsstring \<Rightarrow> bool" where
  "validChars [] = True"
| "validChars [c] = isBmpChar c"
| "validChars (c # d # cs) =
     (if isLeadingSurrogate c then isTrailingSurrogate d \<and> validChars cs
      else isBmpChar c \<and> validChars (d # cs))"

definition isSpace :: "jschar \<Rightarrow> bool" where
  "isSpace c \<longleftrightarrow> c = 32 \<or> c = 9 \<or> c = 13 \<or> c = 10"

definition isNameStart :: "jschar \<Rightarrow> bool" where
  "isNameStart c \<longleftrightarrow>
     c = 58 \<or> (65 \<le> c \<and> c \<le> 90) \<or> c = 95 \<or> (97 \<le> c \<and> c \<le> 122) \<or>
     (192 \<le> c \<and> c \<le> 214) \<or> (216 \<le> c \<and> c \<le> 246) \<or> (248 \<le> c \<and> c \<le> 767) \<or>
     (880 \<le> c \<and> c \<le> 893) \<or> (895 \<le> c \<and> c \<le> 8191) \<or> (8204 \<le> c \<and> c \<le> 8205) \<or>
     (8304 \<le> c \<and> c \<le> 8591) \<or> (11264 \<le> c \<and> c \<le> 12271) \<or>
     (12289 \<le> c \<and> c \<le> 55295) \<or> (63744 \<le> c \<and> c \<le> 64975) \<or>
     (65008 \<le> c \<and> c \<le> 65533) \<or> (55296 \<le> c \<and> c \<le> 56191)"

definition isNameChar :: "jschar \<Rightarrow> bool" where
  "isNameChar c \<longleftrightarrow>
     isNameStart c \<or> c = 45 \<or> c = 46 \<or> (48 \<le> c \<and> c \<le> 57) \<or> c = 183 \<or>
     (768 \<le> c \<and> c \<le> 879) \<or> (8255 \<le> c \<and> c \<le> 8256) \<or> isTrailingSurrogate c"

text \<open>
  A reference in a document without declarations is one of the five predefined entities or a
  character reference.
\<close>

definition validRef :: "jsstring \<Rightarrow> bool" where
  "validRef r \<longleftrightarrow>
     r = js ''amp'' \<or> r = js ''lt'' \<or> r = js ''gt'' \<or> r = js ''apos'' \<or> r = js ''quot'' \<or>
     (take 2 r = js ''#x'' \<and> drop 2 r \<noteq> [] \<and> (\<forall>c \<in> set (drop 2 r). digitValue c < 16)) \<or>
     (take 1 r = js ''#'' \<and> take 2 r \<noteq> js ''#x'' \<and> drop 1 r \<noteq> [] \<and>
      (\<forall>c \<in> set (drop 1 r). 48 \<le> c \<and> c \<le> 57))"

text \<open>
  The scanner reads a document character by character. Its modes are the places of
  the grammar: character data or the space between markup (\<open>Content\<close>), after \<open><\<close>,
  in the opening of a comment, in a comment, in a processing instruction or the XML
  declaration, in the parts of a start tag, in an end tag, in a reference. It
  keeps the names of the open elements, the name and the attribute names of the tag
  it is in, and whether the root element has been seen.
  Outside the root element only white space, comments and processing instructions
  may stand; there is one root element; start and end tags match; the attribute
  names of a tag differ; character data and attribute values hold no \<open><\<close> and
  no \<open>&\<close> but that of a reference; a comment holds no \<open>--\<close>. Document type
  declarations and CDATA sections are not covered (they are refused), and the scanner
  does not look at the target of a processing instruction or for \<open>]]>\<close> in character
  data.
\<close>

datatype xmode =
    Content | Lt | Bang1 | Bang2 | Com | ComDash | ComDashDash | PI | PIQ
  | OpenName | TagGap | AttName | AttEq | AttValStart | AttVal jschar | AfterAtt
  | EmptySlash | CloseName | CloseGap | Ref xmode | Bad

record xstate =
  x_mode :: xmode
  x_stack :: "jsstring list"
  x_name :: jsstring
  x_attrs :: "jsstring list"
  x_att :: jsstring
  x_ref :: jsstring
  x_root :: bool

definition xinit :: xstate where
  "xinit = \<lparr>x_mode = Content, x_stack = [], x_name = [], x_attrs = [], x_att = [], x_ref = [],
            x_root = False\<rparr>"

definition openElement :: "xstate \<Rightarrow> xstate" where
  "openElement st = st\<lparr>x_mode := Content, x_stack := x_name st # x_stack st, x_root := True\<rparr>"

definition closeElement :: "xstate \<Rightarrow> xstate" where
  "closeElement st =
     (if x_stack st \<noteq> [] \<and> hd (x_stack st) = x_name st
      then st\<lparr>x_mode := Content, x_stack := tl (x_stack st)\<rparr>
      else st\<lparr>x_mode := Bad\<rparr>)"

definition attributeNamed :: "xstate \<Rightarrow> xstate" where
  "attributeNamed st =
     (if x_att st \<in> set (x_attrs st) then st\<lparr>x_mode := Bad\<rparr>
      else st\<lparr>x_mode := AttValStart, x_attrs := x_att st # x_attrs st\<rparr>)"

definition xstep :: "xstate \<Rightarrow> jschar \<Rightarrow> xstate" where
  "xstep st c =
     (case x_mode st of
        Content \<Rightarrow>
          if c = 60 then st\<lparr>x_mode := Lt\<rparr>
          else if x_stack st = [] then (if isSpace c then st else st\<lparr>x_mode := Bad\<rparr>)
          else if c = 38 then st\<lparr>x_mode := Ref Content, x_ref := []\<rparr>
          else st
      | Lt \<Rightarrow>
          if c = 33 then st\<lparr>x_mode := Bang1\<rparr>
          else if c = 63 then st\<lparr>x_mode := PI\<rparr>
          else if c = 47 then
            (if x_stack st = [] then st\<lparr>x_mode := Bad\<rparr> else st\<lparr>x_mode := CloseName, x_name := []\<rparr>)
          else if isNameStart c then
            (if x_stack st = [] \<and> x_root st then st\<lparr>x_mode := Bad\<rparr>
             else st\<lparr>x_mode := OpenName, x_name := [c], x_attrs := []\<rparr>)
          else st\<lparr>x_mode := Bad\<rparr>
      | Bang1 \<Rightarrow> if c = 45 then st\<lparr>x_mode := Bang2\<rparr> else st\<lparr>x_mode := Bad\<rparr>
      | Bang2 \<Rightarrow> if c = 45 then st\<lparr>x_mode := Com\<rparr> else st\<lparr>x_mode := Bad\<rparr>
      | Com \<Rightarrow> if c = 45 then st\<lparr>x_mode := ComDash\<rparr> else st
      | ComDash \<Rightarrow> if c = 45 then st\<lparr>x_mode := ComDashDash\<rparr> else st\<lparr>x_mode := Com\<rparr>
      | ComDashDash \<Rightarrow> if c = 62 then st\<lparr>x_mode := Content\<rparr> else st\<lparr>x_mode := Bad\<rparr>
      | PI \<Rightarrow> if c = 63 then st\<lparr>x_mode := PIQ\<rparr> else st
      | PIQ \<Rightarrow>
          if c = 62 then st\<lparr>x_mode := Content\<rparr>
          else if c = 63 then st
          else st\<lparr>x_mode := PI\<rparr>
      | OpenName \<Rightarrow>
          if isNameChar c then st\<lparr>x_name := x_name st @ [c]\<rparr>
          else if isSpace c then st\<lparr>x_mode := TagGap\<rparr>
          else if c = 62 then openElement st
          else if c = 47 then st\<lparr>x_mode := EmptySlash\<rparr>
          else st\<lparr>x_mode := Bad\<rparr>
      | TagGap \<Rightarrow>
          if isSpace c then st
          else if c = 62 then openElement st
          else if c = 47 then st\<lparr>x_mode := EmptySlash\<rparr>
          else if isNameStart c then st\<lparr>x_mode := AttName, x_att := [c]\<rparr>
          else st\<lparr>x_mode := Bad\<rparr>
      | AttName \<Rightarrow>
          if isNameChar c then st\<lparr>x_att := x_att st @ [c]\<rparr>
          else if isSpace c then st\<lparr>x_mode := AttEq\<rparr>
          else if c = 61 then attributeNamed st
          else st\<lparr>x_mode := Bad\<rparr>
      | AttEq \<Rightarrow>
          if isSpace c then st
          else if c = 61 then attributeNamed st
          else st\<lparr>x_mode := Bad\<rparr>
      | AttValStart \<Rightarrow>
          if isSpace c then st
          else if c = 34 \<or> c = 39 then st\<lparr>x_mode := AttVal c\<rparr>
          else st\<lparr>x_mode := Bad\<rparr>
      | AttVal q \<Rightarrow>
          if c = q then st\<lparr>x_mode := AfterAtt\<rparr>
          else if c = 60 then st\<lparr>x_mode := Bad\<rparr>
          else if c = 38 then st\<lparr>x_mode := Ref (AttVal q), x_ref := []\<rparr>
          else st
      | AfterAtt \<Rightarrow>
          if isSpace c then st\<lparr>x_mode := TagGap\<rparr>
          else if c = 62 then openElement st
          else if c = 47 then st\<lparr>x_mode := EmptySlash\<rparr>
          else st\<lparr>x_mode := Bad\<rparr>
      | EmptySlash \<Rightarrow>
          if c = 62 then st\<lparr>x_mode := Content, x_root := True\<rparr> else st\<lparr>x_mode := Bad\<rparr>
      | CloseName \<Rightarrow>
          if (if x_name st = [] then isNameStart c else isNameChar c)
            then st\<lparr>x_name := x_name st @ [c]\<rparr>
          else if x_name st = [] then st\<lparr>x_mode := Bad\<rparr>
          else if isSpace c then st\<lparr>x_mode := CloseGap\<rparr>
          else if c = 62 then closeElement st
          else st\<lparr>x_mode := Bad\<rparr>
      | CloseGap \<Rightarrow>
          if isSpace c then st
          else if c = 62 then closeElement st
          else st\<lparr>x_mode := Bad\<rparr>
      | Ref back \<Rightarrow>
          if c = 59 then (if validRef (x_ref st) then st\<lparr>x_mode := back\<rparr> else st\<lparr>x_mode := Bad\<rparr>)
          else st\<lparr>x_ref := x_ref st @ [c]\<rparr>
      | Bad \<Rightarrow> st)"

definition scan :: "jsstring \<Rightarrow> xstate" where
  "scan doc = foldl xstep xinit doc"

definition accepting :: "xstate \<Rightarrow> bool" where
  "accepting st \<longleftrightarrow> x_mode st = Content \<and> x_stack st = [] \<and> x_root st"

definition wellFormed :: "jsstring \<Rightarrow> bool" where
  "wellFormed doc \<longleftrightarrow> validChars doc \<and> accepting (scan doc)"

text \<open>
  Texts that can stand in a document as they are: \<open>plainText\<close> as character data
  (characters of XML, none of them \<open><\<close>, \<open>&\<close> or \<open>>\<close>), \<open>commentText\<close> in a comment
  (characters of XML, without \<open>--\<close>).
\<close>

definition plainText :: "jsstring \<Rightarrow> bool" where
  "plainText s \<longleftrightarrow> validChars s \<and> (\<forall>c \<in> set s. c \<noteq> 60 \<and> c \<noteq> 38 \<and> c \<noteq> 62)"

definition commentText :: "jsstring \<Rightarrow> bool" where
  "commentText s \<longleftrightarrow> validChars s \<and> \<not> occursIn (js ''--'') s"

subsection \<open>The template in pieces\<close>

text \<open>
  For the proofs about the rendered document: the sixteen fixed texts of the template
  of \<open>generateBadge\<close>, the fifteen substitutions between them, and the document as the
  two woven together.
\<close>

definition badgeFixed :: "nat \<Rightarrow> jsstring" where
  \<open>badgeFixed k =
     (if k = 0 then
        js ''<?xml version="1.0" encoding="UTF-8"?>'' @ [10] @
          js ''    <svg xmlns="http://www.w3.org/2000/svg" width="''
      else if k = 1 then
        js ''" height="20">'' @ [10, 9] @ js ''  ''
      else if k = 2 then
        [10] @ js ''      <linearGradient id="b" x2="0" y2="100%">'' @ [10] @
          js ''        <stop offset="0" stop-color="#bbb" stop-opacity=".1"/>'' @ [10] @
          js ''        <stop offset="1" stop-opacity=".1"/>'' @ [10] @
          js ''      </linearGradient>'' @ [10] @ js ''      <mask id="a">'' @ [10] @
          js ''        <rect width="''
      else if k = 3 then
        js ''" height="20" rx="3" fill="#fff"/>'' @ [10] @ js ''      </mask>'' @ [10] @
          js ''      <g mask="url(#a)">'' @ [10] @ js ''        <rect width="''
      else if k = 4 then
        js ''" height="20" fill="#555"/>'' @ [10] @ js ''        <rect x="''
      else if k = 5 then
        js ''" width="''
      else if k = 6 then
        js ''" height="20" fill="#4c1"/>'' @ [10] @ js ''        <rect width="''
      else if k = 7 then
        js ''" height="20" fill="url(#b)"/>'' @ [10] @ js ''      </g>'' @ [10] @
          js ''      <g fill="#fff" text-anchor="middle" font-family="DejaVu Sans,Verdana,Geneva,sans-serif" font-size="13">'' @
          [10] @ js ''        <text x="''
      else if k = 8 then
        js ''" y="15" fill="#010101" fill-opacity=".3">''
      else if k = 9 then
        js ''</text>'' @ [10] @ js ''        <text x="''
      else if k = 10 then
        js ''" y="14">''
      else if k = 11 then
        js ''</text>'' @ [10] @ js ''        <text x="''
      else if k = 12 then
        js ''" y="15" fill="#010101" fill-opacity=".3">''
      else if k = 13 then
        js ''</text>'' @ [10] @ js ''        <text x="''
      else if k = 14 then
        js ''" y="14">''
      else
        js ''</text>'' @ [10] @ js ''      </g>'' @ [10] @ js ''    </svg>'')\<close>

definition badgeHoles :: "jsstring \<Rightarrow> jsstring \<Rightarrow> jsstring list \<Rightarrow> jsstring list" where
  "badgeHoles label value' metadata =
     (let valueText = value';
          labelWidth = getTextWidth label;
          valueWidth = getTextWidth valueText;
          totalWidth = labelWidth + valueWidth;
          metadataComments = join [10] (map metadataComment metadata)
      in [decimal totalWidth,
          metadataComments,
          decimal totalWidth,
          decimal labelWidth,
          decimal labelWidth,
          decimal valueWidth,
          decimal totalWidth,
          decimal (labelWidth div 2),
          label,
          decimal (labelWidth div 2),
          label,
          decimal (labelWidth + valueWidth div 2),
          valueText,
          decimal (labelWidth + valueWidth div 2),
          valueText])"

fun weave :: "jsstring list \<Rightarrow> jsstring list \<Rightarrow> jsstring" where
  "weave (f # fs) (t # ts) = f @ t @ weave fs ts"
| "weave fs [] = concat fs"
| "weave [] ts = concat ts"

text \<open>
  \<open>stableFrom st fs ts\<close>: when the scanner starts in \<open>st\<close> on the fixed texts \<open>fs\<close> woven with
  \<open>ts\<close>, each text of \<open>ts\<close> leaves it in the state in which it met it.
\<close>

fun stableFrom :: "xstate \<Rightarrow> jsstring list \<Rightarrow> jsstring list \<Rightarrow> bool" where
  "stableFrom st (f # fs) (t # ts) =
     (foldl xstep (foldl xstep st f) t = foldl xstep st f \<and>
      stableFrom (foldl xstep st f) fs ts)"
| "stableFrom st fs [] = True"
| "stableFrom st [] ts = True"

text \<open>The state of the scanner after each fixed text of the template.\<close>

definition badgeState :: "nat \<Rightarrow> xstate" where
  "badgeState k =
     (if k = 0 then
        \<lparr>x_mode = AttVal 34, x_stack = [], x_name = js ''svg'',
         x_attrs = [js ''width'', js ''xmlns''], x_att = js ''width'', x_ref = [], x_root = False\<rparr>
      else if k = 1 then
        \<lparr>x_mode = Content, x_stack = [js ''svg''], x_name = js ''svg'',
         x_attrs = [js ''height'', js ''width'', js ''xmlns''], x_att = js ''height'', x_ref = [], x_root = True\<rparr>
      else if k = 2 then
        \<lparr>x_mode = AttVal 34, x_stack = [js ''mask'', js ''svg''], x_name = js ''rect'',
         x_attrs = [js ''width''], x_att = js ''width'', x_ref = [], x_root = True\<rparr>
      else if k = 3 then
        \<lparr>x_mode = AttVal 34, x_stack = [js ''g'', js ''svg''], x_name = js ''rect'',
         x_attrs = [js ''width''], x_att = js ''width'', x_ref = [], x_root = True\<rparr>
      else if k = 4 then
        \<lparr>x_mode = AttVal 34, x_stack = [js ''g'', js ''svg''], x_name = js ''rect'',
         x_attrs = [js ''x''], x_att = js ''x'', x_ref = [], x_root = True\<rparr>
      else if k = 5 then
        \<lparr>x_mode = AttVal 34, x_stack = [js ''g'', js ''svg''], x_name = js ''rect'',
         x_attrs = [js ''width'', js ''x''], x_att = js ''width'', x_ref = [], x_root = True\<rparr>
      else if k = 6 then
        \<lparr>x_mode = AttVal 34, x_stack = [js ''g'', js ''svg''], x_name = js ''rect'',
         x_attrs = [js ''width''], x_att = js ''width'', x_ref = [], x_root = True\<rparr>
      else if k = 7 then
        \<lparr>x_mode = AttVal 34, x_stack = [js ''g'', js ''svg''], x_name = js ''text'',
         x_attrs = [js ''x''], x_att = js ''x'', x_ref = [], x_root = True\<rparr>
      else if k = 8 then
        \<lparr>x_mode = Content, x_stack = [js ''text'', js ''g'', js ''svg''], x_name = js ''text'',
         x_attrs = [js ''fill-opacity'', js ''fill'', js ''y'', js ''x''], x_att = js ''fill-opacity'', x_ref = [], x_root = True\<rparr>
      else if k = 9 then
        \<lparr>x_mode = AttVal 34, x_stack = [js ''g'', js ''svg''], x_name = js ''text'',
         x_attrs = [js ''x''], x_att = js ''x'', x_ref = [], x_root = True\<rparr>
      else if k = 10 then
        \<lparr>x_mode = Content, x_stack = [js ''text'', js ''g'', js ''svg''], x_name = js ''text'',
         x_attrs = [js ''y'', js ''x''], x_att = js ''y'', x_ref = [], x_root = True\<rparr>
      else if k = 11 then
        \<lparr>x_mode = AttVal 34, x_stack = [js ''g'', js ''svg''], x_name = js ''text'',
         x_attrs = [js ''x''], x_att = js ''x'', x_ref = [], x_root = True\<rparr>
      else if k = 12 then
        \<lparr>x_mode = Content, x_stack = [js ''text'', js ''g'', js ''svg''], x_name = js ''text'',
         x_attrs = [js ''fill-opacity'', js ''fill'', js ''y'', js ''x''], x_att = js ''fill-opacity'', x_ref = [], x_root = True\<rparr>
      else if k = 13 then
        \<lparr>x_mode = AttVal 34, x_stack = [js ''g'', js ''svg''], x_name = js ''text'',
         x_attrs = [js ''x''], x_att = js ''x'', x_ref = [], x_root = True\<rparr>
      else if k = 14 then
        \<lparr>x_mode = Content, x_stack = [js ''text'', js ''g'', js ''svg''], x_name = js ''text'',
         x_attrs = [js ''y'', js ''x''], x_att = js ''y'', x_ref = [], x_root = True\<rparr>
      else
        \<lparr>x_mode = Content, x_stack = [], x_name = js ''svg'',
         x_attrs = [js ''y'', js ''x''], x_att = js ''y'', x_ref = [], x_root = True\<rparr>)"

section \<open>Reading JSON values\<close>

text \<open>Reading a member of an object and an element of an array (\<open>None\<close> for undefined).\<close>

fun member :: "jsstring \<Rightarrow> json \<Rightarrow> json option" where
  "member k (JObject kvs) = map_of kvs k"
| "member k _ = None"

fun element :: "nat \<Rightarrow> json \<Rightarrow> json option" where
  "element i (JArray vs) = (if i < length vs then Some (vs ! i) else None)"
| "element i _ = None"

section \<open>The worker\<close>

subsection \<open>Requests, responses and the collaborators\<close>

text \<open>
  A request is its method and its URL; \<open>searchParams\<close> are the entries of
  \<open>new URL(request.url).searchParams\<close>, in order (the URL parser is not modelled).
\<close>

record Request =
  "method" :: jsstring
  url :: jsstring
  searchParams :: "(jsstring \<times> jsstring) list"

record Response =
  status :: int
  headers :: "(jsstring \<times> jsstring) list"
  body :: jsstring

text \<open>
  \<open>new Response(body, init)\<close> for a string body: the status is 200 unless \<open>init\<close>
  gives one, and a body without a content type in \<open>init\<close> is plain text.
\<close>

definition new_Response ::
  "jsstring \<Rightarrow> int option \<Rightarrow> (jsstring \<times> jsstring) list \<Rightarrow> Response" where
  "new_Response b st hs =
     \<lparr>status = (case st of None \<Rightarrow> 200 | Some n \<Rightarrow> n),
      headers =
        (if \<exists>h \<in> set hs. asciiLowerCase (fst h) = js ''content-type'' then hs
         else hs @ [(js ''content-type'', js ''text/plain;charset=UTF-8'')]),
      body = b\<rparr>"

record Env =
  SERVICE_ACCOUNT_CREDENTIALS :: jsstring
  GA_PROPERTY_ID :: jsstring

text \<open>The call to the analytics backend: the arguments of the global \<open>fetch\<close>.\<close>

record BackendCall =
  call_url :: jsstring
  call_method :: jsstring
  call_headers :: "(jsstring \<times> jsstring) list"
  call_body :: jsstring
  cacheTtl :: int
  cacheEverything :: bool

text \<open>
  The response of the backend, as far as the handler reads it: \<open>ok\<close>, the result of
  \<open>text()\<close>, and the result of \<open>json()\<close>, which throws on a malformed payload (\<open>Inl\<close> of
  the message) and may give \<open>null\<close> (\<open>None\<close>).
\<close>

record BackendResponse =
  ok :: bool
  "text" :: jsstring
  json :: "jsstring + Report option"

text \<open>
  What the runtime and the collaborators do during one request. A thrown error is
  \<open>Inl\<close> of its message.
  \<^item> \<open>toLowerCase\<close>: \<open>String.prototype.toLowerCase\<close>. It follows the case mappings of
    the Unicode character database, which come with the runtime and not with the
    worker, so it is a parameter: the statements hold for every such function;
  \<^item> \<open>credentials\<close>: \<open>JSON.parse(atob(env.SERVICE_ACCOUNT_CREDENTIALS))\<close> and the
    construction of \<open>GoogleAuth\<close>, which throw or succeed;
  \<^item> \<open>token\<close>: \<open>oauth.getGoogleAuthToken()\<close>, which throws, gives \<open>undefined\<close> or gives a
    token;
  \<^item> \<open>now\<close>: the clock when the query is built; \<open>catch_now\<close>: the clock in the \<open>catch\<close>
    block;
  \<^item> \<open>backend\<close>: the global \<open>fetch\<close>, which throws or gives a response.
\<close>

record World =
  toLowerCase :: "jsstring \<Rightarrow> jsstring"
  credentials :: "jsstring + unit"
  token :: "jsstring + jsstring option"
  now :: int
  catch_now :: int
  backend :: "BackendCall \<Rightarrow> jsstring + BackendResponse"

text \<open>
  The response cache \<open>caches.default\<close>, keyed by the URL of a request. \<open>match\<close> finds
  nothing for a request that is not a GET. \<open>ctx.waitUntil(cache.put(\<dots>))\<close> is modelled
  as the update of the cache.
\<close>

type_synonym Cache = "jsstring \<Rightarrow> Response option"

definition cache_match :: "Cache \<Rightarrow> Request \<Rightarrow> Response option" where
  "cache_match cache request =
     (if method request = js ''GET'' then cache (url request) else None)"

definition cache_put :: "Cache \<Rightarrow> Request \<Rightarrow> Response \<Rightarrow> Cache" where
  "cache_put cache request response = cache(url request \<mapsto> response)"

text \<open>The effects of a run, in the order in which they happen.\<close>

datatype event =
    GetAuthToken
  | BackendFetch BackendCall
  | CachePut Response

subsection \<open>The handler\<close>

definition IMAGE_CACHE_SECONDS :: int where
  "IMAGE_CACHE_SECONDS = 45 * 60"

definition GOOGLE_CALL_CACHE_TTL_SECONDS :: int where
  "GOOGLE_CALL_CACHE_TTL_SECONDS = 45 * 60"

text \<open>
  \<open>[...searchParams.entries()].find(([key, _]) => (key || '').toLowerCase().trim() === "page_path")?.[1]\<close>
\<close>

definition find_page_path :: "World \<Rightarrow> (jsstring \<times> jsstring) list \<Rightarrow> jsstring option" where
  "find_page_path w params =
     map_option snd (find (\<lambda>(key, _). trim (toLowerCase w key) = js ''page_path'') params)"

text \<open>
  The query, \<open>requestBody\<close> of the handler: the date range ends at \<open>getTomorrowDate()\<close>,
  read off the clock, and the filter value is \<open>page_path.toLowerCase().trim()\<close>.
\<close>

definition requestBody :: "World \<Rightarrow> jsstring \<Rightarrow> json" where
  "requestBody w page_path =
     JObject [
       (js ''dateRanges'', JArray [JObject [
         (js ''startDate'', JString (js ''2024-01-01'')),
         (js ''endDate'', JString (getTomorrowDate (now w)))]]),
       (js ''dimensions'', JArray [JObject [
         (js ''name'', JString (js ''pagePath''))]]),
       (js ''dimensionFilter'', JObject [
         (js ''filter'', JObject [
           (js ''fieldName'', JString (js ''pagePath'')),
           (js ''stringFilter'', JObject [
             (js ''matchType'', JString (js ''CONTAINS'')),
             (js ''value'', JString (trim (toLowerCase w page_path)))])])]),
       (js ''metrics'', JArray [JObject [
         (js ''name'', JString (js ''screenPageViews''))]])]"

definition analyticsCall :: "Env \<Rightarrow> jsstring \<Rightarrow> json \<Rightarrow> BackendCall" where
  "analyticsCall env tok requestBody' =
     \<lparr>call_url = js ''https://analyticsdata.googleapis.com/v1beta/'' @ GA_PROPERTY_ID env @
        js '':runReport'',
      call_method = js ''POST'',
      call_headers =
        [(js ''Authorization'', js ''Bearer '' @ tok),
         (js ''Content-Type'', js ''application/json'')],
      call_body = JSON_stringify requestBody' 0,
      cacheTtl = GOOGLE_CALL_CACHE_TTL_SECONDS,
      cacheEverything = True\<rparr>"

definition upstreamErrorResponse :: "jsstring \<Rightarrow> Response" where
  "upstreamErrorResponse errorText =
     new_Response (JSON_stringify (JObject [(js ''error'', JString errorText)]) 4) (Some 500)
       [(js ''Content-Type'', js ''application/json'')]"

definition badgeResponse :: "jsnum \<Rightarrow> jsstring list \<Rightarrow> Response" where
  "badgeResponse counts' dimensionValues' =
     new_Response (generateBadge (js ''readers'') (formatNumber counts') dimensionValues') None
       [(js ''Content-Type'', js ''image/svg+xml''),
        (js ''Cache-Control'', js ''public, max-age='' @ decimal IMAGE_CACHE_SECONDS),
        (js ''Access-Control-Allow-Origin'', js ''*'')]"

text \<open>
  The \<open>catch\<close> block:
  \<open>error.message || 'Internal server error'\<close> and the time of the failure.
\<close>

definition catchResponse :: "jsstring \<Rightarrow> int \<Rightarrow> Response" where
  "catchResponse message t =
     new_Response
       (JSON_stringify (JObject [
          (js ''error'', JString (if message = [] then js ''Internal server error'' else message)),
          (js ''timestamp'', JString (toISOString t))]) 0)
       (Some 500)
       [(js ''Content-Type'', js ''application/json'')]"

text \<open>
  The steps of the \<open>try\<close> block after a cache miss, from the last to the first. Each
  gives the effects and either the thrown message or the response with the cache.
  \<open>generateBadge\<close> calls \<open>replace\<close> on every metadata item, which throws a TypeError on
  a dimension value that is undefined.
\<close>

type_synonym outcome = "event list \<times> (jsstring + Response \<times> Cache)"

definition render :: "Cache \<Rightarrow> Request \<Rightarrow> Report option \<Rightarrow> outcome" where
  "render cache request data =
     (let counts' = counts data;
          dimensionValues' = getValues data (js ''dimensionValues'')
      in if None \<in> set dimensionValues'
         then ([], Inl (js ''Cannot read properties of undefined (reading 'replace')''))
         else (let response = badgeResponse counts' (map the dimensionValues')
               in ([CachePut response], Inr (response, cache_put cache request response))))"

definition callBackend :: "Cache \<Rightarrow> Request \<Rightarrow> Env \<Rightarrow> World \<Rightarrow> jsstring \<Rightarrow> jsstring \<Rightarrow> outcome" where
  "callBackend cache request env w tok page_path =
     (let requestBody' = requestBody w page_path;
          call = analyticsCall env tok requestBody'
      in case backend w call of
           Inl e \<Rightarrow> ([BackendFetch call], Inl e)
         | Inr analyticsResponse \<Rightarrow>
             if \<not> ok analyticsResponse
             then ([BackendFetch call],
                   Inr (upstreamErrorResponse (text analyticsResponse), cache))
             else (case json analyticsResponse of
                     Inl e \<Rightarrow> ([BackendFetch call], Inl e)
                   | Inr data \<Rightarrow>
                       (case render cache request data of
                          (es, r) \<Rightarrow> (BackendFetch call # es, r))))"

definition validate :: "Cache \<Rightarrow> Request \<Rightarrow> Env \<Rightarrow> World \<Rightarrow> jsstring \<Rightarrow> outcome" where
  "validate cache request env w tok =
     (if method request \<noteq> js ''GET''
      then ([], Inr (new_Response (js ''Method not allowed'') (Some 405) [], cache))
      else (case find_page_path w (searchParams request) of
              None \<Rightarrow> ([], Inr (new_Response (js ''page_path not available'') (Some 405) [], cache))
            | Some page_path \<Rightarrow>
                if page_path = []
                then ([], Inr (new_Response (js ''page_path not available'') (Some 405) [], cache))
                else callBackend cache request env w tok page_path))"

definition authenticate :: "Cache \<Rightarrow> Request \<Rightarrow> Env \<Rightarrow> World \<Rightarrow> outcome" where
  "authenticate cache request env w =
     (case credentials w of
        Inl e \<Rightarrow> ([], Inl e)
      | Inr _ \<Rightarrow>
          (case token w of
             Inl e \<Rightarrow> ([GetAuthToken], Inl e)
           | Inr None \<Rightarrow> ([GetAuthToken], Inl (js ''generating Google auth token failed''))
           | Inr (Some tok) \<Rightarrow>
               (case validate cache request env w tok of
                  (es, r) \<Rightarrow> (GetAuthToken # es, r))))"

text \<open>
  \<open>fetch\<close>: the cached response on a hit; otherwise the \<open>try\<close> block, and the \<open>catch\<close> block
  when it throws. The result is the response, the cache afterwards and the effects.
\<close>

record Result =
  result_response :: Response
  result_cache :: Cache
  result_events :: "event list"

definition fetch :: "Cache \<Rightarrow> Request \<Rightarrow> Env \<Rightarrow> World \<Rightarrow> Result" where
  "fetch cache request env w =
     (case cache_match cache request of
        Some response \<Rightarrow>
          \<lparr>result_response = response, result_cache = cache, result_events = []\<rparr>
      | None \<Rightarrow>
          (case authenticate cache request env w of
             (es, Inr (response, cache')) \<Rightarrow>
               \<lparr>result_response = response, result_cache = cache', result_events = es\<rparr>
           | (es, Inl message) \<Rightarrow>
               \<lparr>result_response = catchResponse message (catch_now w), result_cache = cache,
                result_events = es\<rparr>))"

text \<open>
  The caches that can arise: the empty cache, the cache after a request, and a cache
  with an entry removed (expiry and eviction are up to the platform).
\<close>

inductive reachable :: "Cache \<Rightarrow> bool" where
  empty: "reachable Map.empty"
| request: "reachable cache \<Longrightarrow> reachable (result_cache (fetch cache request env w))"
| evict: "reachable cache \<Longrightarrow> reachable (cache(u := None))"

subsection \<open>Sample runs\<close>

text \<open>
  Inputs for the theorems that evaluate the handler: a GET for \<open>page_path=post\<close>, the
  same request as a POST, a GET without \<open>page_path\<close>, a GET for \<open>Page_Path\<close> with
  capitals and spaces in the path, a backend that answers with one
  row of 42 views of \<open>/blog/post\<close>, a backend that refuses the call, token acquisition
  that yields no token, a row with a metric value that is not a number, and a backend
  that answers with one row of 42 views of \<open>/my--post\<close>. The paths of the samples are
  Basic Latin texts, for which \<open>toLowerCase\<close> moves \<open>A\<close>..\<open>Z\<close> only.
\<close>

definition sampleRequest :: Request where
  "sampleRequest =
     \<lparr>method = js ''GET'', url = js ''https://views.example/?page_path=post'',
      searchParams = [(js ''page_path'', js ''post'')]\<rparr>"

definition samplePost :: Request where
  "samplePost = sampleRequest\<lparr>method := js ''POST''\<rparr>"

definition sampleBare :: Request where
  "sampleBare =
     \<lparr>method = js ''GET'', url = js ''https://views.example/'', searchParams = []\<rparr>"

definition sampleMixedCase :: Request where
  "sampleMixedCase =
     \<lparr>method = js ''GET'', url = js ''https://views.example/?Page_Path=%20/Blog/Post%20'',
      searchParams = [(js ''Page_Path'', js '' /Blog/Post '')]\<rparr>"

definition sampleEnv :: Env where
  "sampleEnv = \<lparr>SERVICE_ACCOUNT_CREDENTIALS = [], GA_PROPERTY_ID = js ''properties/1''\<rparr>"

definition sampleRows :: "ReportRow list" where
  "sampleRows =
     [\<lparr>dimensionValues = [Some \<lparr>value = Some (js ''/blog/post'')\<rparr>],
       metricValues = [Some \<lparr>value = Some (js ''42'')\<rparr>]\<rparr>]"

definition sampleReport :: Report where
  "sampleReport = \<lparr>rows = Some sampleRows\<rparr>"

definition sampleWorld :: World where
  "sampleWorld =
     \<lparr>toLowerCase = asciiLowerCase, credentials = Inr (), token = Inr (Some (js ''t0'')),
      now = 1793625912345,
      catch_now = 1793625912999,
      backend = (\<lambda>call. Inr \<lparr>ok = True, text = [], json = Inr (Some sampleReport)\<rparr>)\<rparr>"

definition sampleRefused :: World where
  "sampleRefused =
     sampleWorld\<lparr>backend :=
       (\<lambda>call. Inr \<lparr>ok = False, text = js ''quota exceeded'', json = Inl (js ''no JSON'')\<rparr>)\<rparr>"

definition sampleNoToken :: World where
  "sampleNoToken = sampleWorld\<lparr>token := Inr None\<rparr>"

definition sampleMixedRows :: "ReportRow list" where
  "sampleMixedRows =
     [\<lparr>dimensionValues = [Some \<lparr>value = Some (js ''/blog/post'')\<rparr>],
       metricValues = [Some \<lparr>value = Some (js ''abc'')\<rparr>, Some \<lparr>value = Some (js ''5'')\<rparr>]\<rparr>]"

definition sampleDashedRows :: "ReportRow list" where
  "sampleDashedRows =
     [\<lparr>dimensionValues = [Some \<lparr>value = Some (js ''/my--post'')\<rparr>],
       metricValues = [Some \<lparr>value = Some (js ''42'')\<rparr>]\<rparr>]"

definition sampleDashed :: World where
  "sampleDashed =
     sampleWorld\<lparr>backend :=
       (\<lambda>call. Inr \<lparr>ok = True, text = [], json = Inr (Some \<lparr>rows = Some sampleDashedRows\<rparr>)\<rparr>)\<rparr>"

section \<open>Properties of the number formatter\<close>

subsection \<open>Rounding\<close>

lemma rhe_div_bound:
  assumes "0 < q"
  shows "\<bar>2 * (p - rhe_div p q * q)\<bar> \<le> q"
proof -
  define d where "d = p div q"
  define r where "r = p mod q"
  have m: "0 \<le> r" "r < q" using assms by (simp_all add: r_def)
  have e: "p = d * q + r" by (simp add: d_def r_def)
  have f: "p - d * q = r" "p - (d + 1) * q = r - q" using e by (simp_all add: algebra_simps)
  have "rhe_div p q = d \<and> 2 * r \<le> q \<or> rhe_div p q = d + 1 \<and> q \<le> 2 * r"
    unfolding rhe_div_def Let_def d_def [symmetric] r_def [symmetric] by auto
  then show ?thesis using m f by (elim disjE conjE) simp_all
qed

lemma rhe_div_exact:
  assumes "0 < q" "q dvd p"
  shows "rhe_div p q = p div q"
  using assms by (simp add: rhe_div_def Let_def)

lemma flog2_lower:
  assumes "0 < b" "b \<le> a"
  shows "0 \<le> flog2 a b \<and> b * 2 ^ nat (flog2 a b) \<le> a"
proof -
  have a: "0 < a" using assms by simp
  let ?k = "bitlen a - bitlen b"
  have ba: "2 ^ nat (bitlen a - 1) \<le> a" "a < 2 ^ nat (bitlen a)" using bitlen_bounds[OF a] by simp_all
  have bb: "2 ^ nat (bitlen b - 1) \<le> b" "b < 2 ^ nat (bitlen b)" using bitlen_bounds[OF assms(1)] by simp_all
  have lb: "1 \<le> bitlen b" using assms(1) bitlen_eq_zero_iff[of b] bitlen_nonneg[of b] by linarith
  have le: "bitlen b \<le> bitlen a"
  proof (rule ccontr)
    assume "\<not> bitlen b \<le> bitlen a"
    then have "bitlen a \<le> bitlen b - 1" by simp
    then have "(2::int) ^ nat (bitlen a) \<le> 2 ^ nat (bitlen b - 1)"
      by (intro power_increasing) auto
    with ba bb assms show False by linarith
  qed
  show ?thesis
  proof (cases "b * 2 ^ nat ?k \<le> a")
    case True
    then show ?thesis using le by (simp add: flog2_def Let_def)
  next
    case False
    then have fl: "flog2 a b = ?k - 1" using le by (simp add: flog2_def Let_def)
    have "?k \<noteq> 0" using False assms by auto
    then have k1: "1 \<le> ?k" using le by linarith
    have "b * 2 ^ nat (?k - 1) \<le> 2 ^ nat (bitlen b) * 2 ^ nat (?k - 1)"
      using bb by (intro mult_right_mono) auto
    also have "\<dots> = 2 ^ (nat (bitlen b) + nat (?k - 1))" by (simp add: power_add)
    also have "nat (bitlen b) + nat (?k - 1) = nat (bitlen a - 1)" using lb k1 by linarith
    finally have "b * 2 ^ nat (?k - 1) \<le> a" using ba by linarith
    then show ?thesis using fl k1 by simp
  qed
qed

lemma flog2_less:
  assumes "0 < b" "b \<le> a" "a < b * 2 ^ K"
  shows "flog2 a b < int K"
proof (rule ccontr)
  assume "\<not> flog2 a b < int K"
  then have "K \<le> nat (flog2 a b)" by linarith
  then have "(2::int) ^ K \<le> 2 ^ nat (flog2 a b)" by (intro power_increasing) auto
  then have "b * 2 ^ K \<le> b * 2 ^ nat (flog2 a b)" using assms(1) by (intro mult_left_mono) auto
  with flog2_lower[OF assms(1,2)] assms(3) show False by linarith
qed

lemma div_bounds:
  fixes X D :: int
  assumes "0 < D"
  shows "D * (X div D) \<le> X" "X < D * (X div D + 1)"
proof -
  have e: "X = D * (X div D) + X mod D" by simp
  have m: "0 \<le> X mod D" "X mod D < D" using assms by simp_all
  show "D * (X div D) \<le> X" using e m by linarith
  have "D * (X div D + 1) = D * (X div D) + D" by (simp add: algebra_simps)
  then show "X < D * (X div D + 1)" using e m by linarith
qed

lemma round_bound:
  fixes a m k c P :: int
  assumes r: "\<bar>2 * (a * P - m * (20 * c))\<bar> \<le> 20 * c"
    and k1: "2 * P * k \<le> 20 * m + P"
    and k2: "20 * m + P < 2 * P * (k + 1)"
    and P: "10 * c < P" and c: "0 < c"
  shows "\<bar>2 * c * k - a\<bar> \<le> c"
proof -
  have "c * (2 * P * k) \<le> c * (20 * m + P)" using k1 c by (intro mult_left_mono) auto
  then have u: "P * (2 * c * k - a - c) \<le> 10 * c" using r by (simp add: algebra_simps)
  have "c * (20 * m + P) < c * (2 * P * (k + 1))" using k2 c by (intro mult_strict_left_mono) auto
  then have l: "P * (a - 2 * c * k - c) < 10 * c" using r by (simp add: algebra_simps)
  have "2 * c * k - a - c \<le> 0"
  proof (rule ccontr)
    assume "\<not> ?thesis"
    then have "P * 1 \<le> P * (2 * c * k - a - c)" using P c by (intro mult_left_mono) auto
    with u P show False by linarith
  qed
  moreover have "a - 2 * c * k - c \<le> 0"
  proof (rule ccontr)
    assume "\<not> ?thesis"
    then have "P * 1 \<le> P * (a - 2 * c * k - c)" using P c by (intro mult_left_mono) auto
    with l P show False by linarith
  qed
  ultimately show ?thesis by linarith
qed


lemma decimal_ge10:
  assumes "10 \<le> k"
  shows "decimal k = decimal (k div 10) @ decimal (k mod 10)"
proof -
  have "k mod 10 < 10" by simp
  then have "decimal (k mod 10) = [word_of_int (48 + k mod 10)]" by (simp add: decimal.simps)
  then show ?thesis using assms by (subst decimal.simps) simp
qed

lemma length_decimal_digit: "k < 10 \<Longrightarrow> length (decimal k) = 1"
  by (simp add: decimal.simps)

lemma decimal_nonempty: "decimal k \<noteq> []"
  by (subst decimal.simps) simp

lemma point_split:
  assumes "length lo = f" "hi \<noteq> []"
  shows "(let ds' = replicate (f + 1 - length (hi @ lo)) z @ (hi @ lo); k = length ds'
          in s @ take (k - f) ds' @ p @ drop (k - f) ds') = s @ hi @ p @ lo"
proof -
  have "1 \<le> length hi" using assms(2) by (cases hi) simp_all
  then have "f + 1 - length (hi @ lo) = 0" using assms(1) by simp
  then show ?thesis using assms(1) by (simp add: Let_def)
qed

lemma toFixed1:
  assumes "0 \<le> m" "10 \<le> scaled_round m e 1" "e < 0"
  shows "toFixed (Dbl m e) 1 =
    decimal (scaled_round m e 1 div 10) @ js ''.'' @ decimal (scaled_round m e 1 mod 10)"
proof -
  let ?k = "scaled_round m e 1"
  let ?hi = "decimal (?k div 10)" and ?lo = "decimal (?k mod 10)"
  have d: "decimal ?k = ?hi @ ?lo" using assms(2) by (rule decimal_ge10)
  have lo: "length ?lo = 1" by (rule length_decimal_digit) simp
  have hi: "?hi \<noteq> []" by (rule decimal_nonempty)
  have "toFixed (Dbl m e) 1 =
     (let ds' = replicate (1 + 1 - length (?hi @ ?lo)) 48 @ (?hi @ ?lo); k = length ds'
      in [] @ take (k - 1) ds' @ js ''.'' @ drop (k - 1) ds')"
    using assms(1,3) unfolding toFixed.simps d [symmetric] by (simp add: Let_def)
  also have "\<dots> = [] @ ?hi @ js ''.'' @ ?lo" using lo hi by (rule point_split)
  finally show ?thesis by simp
qed

lemma div_pos_form:
  assumes "0 < b" "b \<le> a" "a < b * 2 ^ K" "K \<le> 52"
  shows "\<exists>s. div_pos a b = Dbl (rhe_div (a * 2 ^ s) b) (- int s) \<and> 53 \<le> s + K \<and> 0 < s"
proof -
  have l: "0 \<le> flog2 a b" using flog2_lower[OF assms(1,2)] by simp
  have u: "flog2 a b < int K" using assms(1-3) by (rule flog2_less)
  let ?s = "nat (52 - flog2 a b)"
  have "flog2 a b - 52 < 0" using u assms(4) by linarith
  then have "div_pos a b = Dbl (rhe_div (a * 2 ^ ?s) b) (- int ?s)"
    using u assms(4) by (simp add: div_pos_def Let_def)
  moreover have "53 \<le> ?s + K" "0 < ?s" using l u assms(4) by linarith+
  ultimately show ?thesis by blast
qed

lemma fmt_whole:
  assumes "0 < b" "b \<le> a" "a < b * 2 ^ K" "K \<le> 52" "b dvd a"
  shows "isWhole (js_div (Num a) b) \<and> toFixed (js_div (Num a) b) 0 = decimal (a div b)"
proof -
  obtain s where s: "div_pos a b = Dbl (rhe_div (a * 2 ^ s) b) (- int s)" "0 < s"
    using div_pos_form[OF assms(1-4)] by blast
  obtain j where j: "a = b * j" using assms(5) by (auto simp: dvd_def)
  have jp: "0 < j" using assms(1,2) j by (simp add: zero_less_mult_iff)
  define P :: int where "P = 2 ^ s"
  have P: "0 < P" by (simp add: P_def)
  have "b dvd a * P" using assms(5) by simp
  then have m: "rhe_div (a * P) b = j * P"
    using rhe_div_exact[OF assms(1), of "a * P"] assms(1) j by simp
  have a0: "a \<noteq> 0" "\<not> a < 0" using assms(1,2) by simp_all
  have jd: "js_div (Num a) b = Dbl (j * P) (- int s)" using s a0 m by (simp add: P_def)
  have "(2 * (j * P) + P) div (2 * P) = j"
  proof -
    have "2 * (j * P) + P = j * (2 * P) + P" by simp
    also have "\<dots> div (2 * P) = j + P div (2 * P)" using P by simp
    also have "P div (2 * P) = 0" using P by simp
    finally show ?thesis by simp
  qed
  then have sr: "scaled_round (j * P) (- int s) 0 = j" using s(2)
    by (simp add: scaled_round_def P_def)
  have "0 < j * P" using jp P by (rule mult_pos_pos)
  then have ab: "\<bar>j * P\<bar> = j * P" "\<not> j * P < 0" by linarith+
  have "a div b = j" using j assms(1) by simp
  then show ?thesis using jd sr ab s(2) jp by (simp add: Let_def P_def)
qed

lemma fmt_frac:
  assumes "0 < c" "20 * c \<le> a" "a < 20 * c * 2 ^ K" "K \<le> 52" "10 * c < 2 ^ (53 - K)"
    "\<not> 20 * c dvd a"
  shows "\<not> isWhole (js_div (Num a) (20 * c)) \<and>
         (\<exists>k. \<bar>2 * c * k - a\<bar> \<le> c \<and>
              toFixed (js_div (Num a) (20 * c)) 1 = decimal (k div 10) @ js ''.'' @ decimal (k mod 10))"
proof -
  let ?b = "20 * c"
  have b: "0 < ?b" using assms(1) by simp
  obtain s where s: "div_pos a ?b = Dbl (rhe_div (a * 2 ^ s) ?b) (- int s)" "53 \<le> s + K" "0 < s"
    using div_pos_form[OF b assms(2,3,4)] by blast
  define P :: int where "P = 2 ^ s"
  define m where "m = rhe_div (a * P) ?b"
  have "(2::int) ^ (53 - K) \<le> 2 ^ s" using s(2) by (intro power_increasing) auto
  then have P: "10 * c < P" unfolding P_def using assms(5) by linarith
  have P0: "0 < P" by (simp add: P_def)
  have r: "\<bar>2 * (a * P - m * ?b)\<bar> \<le> ?b" unfolding m_def using b by (rule rhe_div_bound)
  have a0: "a \<noteq> 0" "\<not> a < 0" "0 < a" using assms(1,2) by simp_all
  have jd: "js_div (Num a) ?b = Dbl m (- int s)" using s a0 by (simp add: m_def P_def)
  have m0: "0 \<le> m"
  proof (rule ccontr)
    assume "\<not> 0 \<le> m"
    then have "m \<le> - 1" by simp
    then have "m * ?b \<le> - 1 * ?b" using b by (intro mult_right_mono) auto
    then have 1: "m * ?b \<le> - ?b" by simp
    have 2: "0 \<le> a * P" using a0 P0 by simp
    have 3: "2 * (a * P - m * ?b) \<le> ?b" using r by (simp only: abs_le_iff)
    have "Y \<le> - B \<Longrightarrow> 0 \<le> X \<Longrightarrow> 2 * (X - Y) \<le> B \<Longrightarrow> 0 < B \<Longrightarrow> False"
      for X Y B :: int by arith
    from this [OF 1 2 3 b] show False .
  qed
  have nw: "\<not> P dvd m"
  proof
    assume "P dvd m"
    then obtain j where j: "m = P * j" by (auto simp: dvd_def)
    have "2 * (a * P - m * ?b) = P * (2 * (a - j * ?b))" by (simp add: j algebra_simps)
    then have "\<bar>2 * (a * P - m * ?b)\<bar> = P * \<bar>2 * (a - j * ?b)\<bar>"
      using P0 by (simp add: abs_mult)
    then have le: "P * \<bar>2 * (a - j * ?b)\<bar> \<le> ?b" using r by simp
    have "a - j * ?b \<noteq> 0" using assms(6) by (auto simp: dvd_def)
    moreover have "x \<noteq> 0 \<Longrightarrow> 2 \<le> \<bar>2 * x\<bar>" for x :: int by arith
    ultimately have "2 \<le> \<bar>2 * (a - j * ?b)\<bar>" by blast
    then have "P * 2 \<le> P * \<bar>2 * (a - j * ?b)\<bar>" using P0 by (intro mult_left_mono) auto
    with le P show False by linarith
  qed
  define k where "k = (20 * m + P) div (2 * P)"
  have sr: "scaled_round m (- int s) 1 = k" using s(3) by (simp add: scaled_round_def k_def P_def)
  have P2: "0 < 2 * P" using P0 by simp
  have k1: "2 * P * k \<le> 20 * m + P" unfolding k_def using P2 by (rule div_bounds)
  have k2: "20 * m + P < 2 * P * (k + 1)" unfolding k_def using P2 by (rule div_bounds)
  have bd: "\<bar>2 * c * k - a\<bar> \<le> c" using r k1 k2 P assms(1) by (rule round_bound)
  have "19 * c \<le> 2 * c * k" using bd assms(2) by linarith
  have "10 \<le> k"
  proof (rule ccontr)
    assume "\<not> 10 \<le> k"
    then have "k \<le> 9" by simp
    then have "c * k \<le> c * 9" using assms(1) by (intro mult_left_mono) auto
    with \<open>19 * c \<le> 2 * c * k\<close> assms(1) show False by simp
  qed
  then have "toFixed (Dbl m (- int s)) 1 = decimal (k div 10) @ js ''.'' @ decimal (k mod 10)"
    using toFixed1[OF m0, of "- int s"] sr s(3) by simp
  then show ?thesis using jd nw s(3) bd by (auto simp: P_def)
qed

lemma Number_toString_small: "x \<le> 9007199254740992 \<Longrightarrow> Number_toString x = decimal x"
  by (simp add: Number_toString_def)

lemma formatNumber_unfold:
  "formatNumber (Num n) =
     (if n < 0 then js ''-'' else []) @
     (if \<bar>n\<bar> < 1000 then decimal \<bar>n\<bar>
      else if \<bar>n\<bar> < 1000000 then
        toFixed (js_div (Num \<bar>n\<bar>) 1000) (if isWhole (js_div (Num \<bar>n\<bar>) 1000) then 0 else 1) @ js ''K''
      else
        toFixed (js_div (Num \<bar>n\<bar>) 1000000)
          (if isWhole (js_div (Num \<bar>n\<bar>) 1000000) then 0 else 1) @ js ''M'')"
  by (simp add: formatNumber_def Let_def Number_toString_small del: js_div.simps)

lemma formatNumber_K_whole:
  assumes "1000 \<le> \<bar>n\<bar>" "\<bar>n\<bar> < 1000000" "1000 dvd n"
  shows "formatNumber (Num n) = (if n < 0 then js ''-'' else []) @ decimal (\<bar>n\<bar> div 1000) @ js ''K''"
proof -
  have "isWhole (js_div (Num \<bar>n\<bar>) 1000) \<and>
        toFixed (js_div (Num \<bar>n\<bar>) 1000) 0 = decimal (\<bar>n\<bar> div 1000)"
    using assms by (intro fmt_whole [where K = 10]) simp_all
  then show ?thesis using assms(1,2) by (simp add: formatNumber_unfold del: js_div.simps)
qed

lemma formatNumber_K_frac:
  assumes "1000 \<le> \<bar>n\<bar>" "\<bar>n\<bar> < 1000000" "\<not> 1000 dvd n"
  shows "\<exists>k. \<bar>100 * k - \<bar>n\<bar>\<bar> \<le> 50 \<and>
    formatNumber (Num n) =
      (if n < 0 then js ''-'' else []) @ decimal (k div 10) @ js ''.'' @ decimal (k mod 10) @ js ''K''"
proof -
  have "\<not> isWhole (js_div (Num \<bar>n\<bar>) (20 * 50)) \<and>
        (\<exists>k. \<bar>2 * 50 * k - \<bar>n\<bar>\<bar> \<le> 50 \<and>
             toFixed (js_div (Num \<bar>n\<bar>) (20 * 50)) 1 =
               decimal (k div 10) @ js ''.'' @ decimal (k mod 10))"
    using assms by (intro fmt_frac [where K = 10]) simp_all
  then obtain k where "\<not> isWhole (js_div (Num \<bar>n\<bar>) 1000)" "\<bar>100 * k - \<bar>n\<bar>\<bar> \<le> 50"
    "toFixed (js_div (Num \<bar>n\<bar>) 1000) 1 = decimal (k div 10) @ js ''.'' @ decimal (k mod 10)"
    by auto
  then show ?thesis using assms(1,2)
    by (intro exI [of _ k]) (simp add: formatNumber_unfold del: js_div.simps)
qed

lemma formatNumber_M_whole:
  assumes "1000000 \<le> \<bar>n\<bar>" "\<bar>n\<bar> \<le> 9007199254740991" "1000000 dvd n"
  shows "formatNumber (Num n) =
    (if n < 0 then js ''-'' else []) @ decimal (\<bar>n\<bar> div 1000000) @ js ''M''"
proof -
  have "isWhole (js_div (Num \<bar>n\<bar>) 1000000) \<and>
        toFixed (js_div (Num \<bar>n\<bar>) 1000000) 0 = decimal (\<bar>n\<bar> div 1000000)"
    using assms by (intro fmt_whole [where K = 34]) simp_all
  then show ?thesis using assms(1,2) by (simp add: formatNumber_unfold del: js_div.simps)
qed

lemma formatNumber_M_frac:
  assumes "1000000 \<le> \<bar>n\<bar>" "\<bar>n\<bar> \<le> 9007199254740991" "\<not> 1000000 dvd n"
  shows "\<exists>k. \<bar>100000 * k - \<bar>n\<bar>\<bar> \<le> 50000 \<and>
    formatNumber (Num n) =
      (if n < 0 then js ''-'' else []) @ decimal (k div 10) @ js ''.'' @ decimal (k mod 10) @ js ''M''"
proof -
  have "\<not> isWhole (js_div (Num \<bar>n\<bar>) (20 * 50000)) \<and>
        (\<exists>k. \<bar>2 * 50000 * k - \<bar>n\<bar>\<bar> \<le> 50000 \<and>
             toFixed (js_div (Num \<bar>n\<bar>) (20 * 50000)) 1 =
               decimal (k div 10) @ js ''.'' @ decimal (k mod 10))"
    using assms by (intro fmt_frac [where K = 34]) simp_all
  then obtain k where "\<not> isWhole (js_div (Num \<bar>n\<bar>) 1000000)" "\<bar>100000 * k - \<bar>n\<bar>\<bar> \<le> 50000"
    "toFixed (js_div (Num \<bar>n\<bar>) 1000000) 1 = decimal (k div 10) @ js ''.'' @ decimal (k mod 10)"
    by auto
  then show ?thesis using assms(1,2)
    by (intro exI [of _ k]) (simp add: formatNumber_unfold del: js_div.simps)
qed

lemma formatNumber_examples:
  "formatNumber (Num 0) = js ''0''"
  "formatNumber (Num 999) = js ''999''"
  "formatNumber (Num 1000) = js ''1K''"
  "formatNumber (Num 1500) = js ''1.5K''"
  "formatNumber (Num 2500000) = js ''2.5M''"
  "formatNumber (Num (- 42)) = js ''-42''"
  by code_simp+

text \<open>
  C4. The number formatter on an integer \<open>n\<close> (a double, so up to \<open>2 ^ 53 - 1\<close> in
  magnitude): below 1000 it prints the digits of \<open>\<bar>n\<bar>\<close>, with a leading minus sign for a
  negative \<open>n\<close>; from 1000 to below 1000000 it prints \<open>\<bar>n\<bar> / 1000\<close> followed by \<open>K\<close>, with no
  decimals when 1000 divides \<open>n\<close> and otherwise with exactly one decimal digit, the
  printed value \<open>k / 10\<close> being within \<open>1 / 20\<close> of the quotient; from 1000000 on the same
  with the divisor 1000000 and the suffix \<open>M\<close>. The six examples of the specification
  hold.
\<close>

theorem formatNumber_ranges:
  "(\<bar>n\<bar> < 1000 \<longrightarrow>
      formatNumber (Num n) = (if n < 0 then js ''-'' else []) @ decimal \<bar>n\<bar>) \<and>
   (1000 \<le> \<bar>n\<bar> \<and> \<bar>n\<bar> < 1000000 \<and> 1000 dvd n \<longrightarrow>
      formatNumber (Num n) =
        (if n < 0 then js ''-'' else []) @ decimal (\<bar>n\<bar> div 1000) @ js ''K'') \<and>
   (1000 \<le> \<bar>n\<bar> \<and> \<bar>n\<bar> < 1000000 \<and> \<not> 1000 dvd n \<longrightarrow>
      (\<exists>k. \<bar>100 * k - \<bar>n\<bar>\<bar> \<le> 50 \<and>
         formatNumber (Num n) =
           (if n < 0 then js ''-'' else []) @ decimal (k div 10) @ js ''.'' @
           decimal (k mod 10) @ js ''K'')) \<and>
   (1000000 \<le> \<bar>n\<bar> \<and> \<bar>n\<bar> \<le> 9007199254740991 \<and> 1000000 dvd n \<longrightarrow>
      formatNumber (Num n) =
        (if n < 0 then js ''-'' else []) @ decimal (\<bar>n\<bar> div 1000000) @ js ''M'') \<and>
   (1000000 \<le> \<bar>n\<bar> \<and> \<bar>n\<bar> \<le> 9007199254740991 \<and> \<not> 1000000 dvd n \<longrightarrow>
      (\<exists>k. \<bar>100000 * k - \<bar>n\<bar>\<bar> \<le> 50000 \<and>
         formatNumber (Num n) =
           (if n < 0 then js ''-'' else []) @ decimal (k div 10) @ js ''.'' @
           decimal (k mod 10) @ js ''M'')) \<and>
   formatNumber (Num 0) = js ''0'' \<and> formatNumber (Num 999) = js ''999'' \<and>
   formatNumber (Num 1000) = js ''1K'' \<and> formatNumber (Num 1500) = js ''1.5K'' \<and>
   formatNumber (Num 2500000) = js ''2.5M'' \<and> formatNumber (Num (- 42)) = js ''-42''"
proof -
  have small: "\<bar>n\<bar> < 1000 \<longrightarrow>
      formatNumber (Num n) = (if n < 0 then js ''-'' else []) @ decimal \<bar>n\<bar>"
    by (simp add: formatNumber_unfold)
  note range = formatNumber_K_whole [of n] formatNumber_K_frac [of n]
    formatNumber_M_whole [of n] formatNumber_M_frac [of n]
  show ?thesis
    using small range formatNumber_examples by blast
qed

theorem formatNumber_ranges_witness:
  "formatNumber (Num (- 7)) = js ''-'' @ decimal 7 \<and>
   formatNumber (Num 2000) = decimal 2 @ js ''K'' \<and>
   (\<exists>k. \<bar>100 * k - 1234\<bar> \<le> 50 \<and>
      formatNumber (Num (- 1234)) =
        js ''-'' @ decimal (k div 10) @ js ''.'' @ decimal (k mod 10) @ js ''K'') \<and>
   formatNumber (Num 3000000) = decimal 3 @ js ''M'' \<and>
   (\<exists>k. \<bar>100000 * k - 2540001\<bar> \<le> 50000 \<and>
      formatNumber (Num 2540001) =
        decimal (k div 10) @ js ''.'' @ decimal (k mod 10) @ js ''M'')"
  using formatNumber_ranges [of "- 7"] formatNumber_ranges [of 2000]
    formatNumber_ranges [of "- 1234"] formatNumber_ranges [of 3000000]
    formatNumber_ranges [of 2540001]
  by simp

text \<open>
  C5. For every integer \<open>n > 0\<close>, formatting \<open>- n\<close> gives a minus sign followed by the
  formatting of \<open>n\<close>.
\<close>

theorem formatNumber_negate:
  "0 < n \<Longrightarrow> formatNumber (Num (- n)) = js ''-'' @ formatNumber (Num n)"
  by (simp add: formatNumber_unfold del: js_div.simps)

theorem formatNumber_negate_witness:
  "(0::int) < 2500 \<and> formatNumber (Num (- 2500)) = js ''-'' @ formatNumber (Num 2500)"
  using formatNumber_negate [of 2500] by simp
section \<open>Properties of the dates\<close>

lemma MonthFromTime_range: "0 \<le> MonthFromTime t \<and> MonthFromTime t \<le> 11"
  by (simp add: MonthFromTime_def Let_def)

lemma MakeDay_same_month:
  "MakeDay (YearFromTime t) (MonthFromTime t) (DateFromTime t + k) = Day t + k"
proof -
  let ?m = "MonthFromTime t"
  have r: "0 \<le> ?m" "?m \<le> 11" using MonthFromTime_range [of t] by simp_all
  then have dm: "?m div 12 = 0" "?m mod 12 = ?m" by simp_all
  have L: "(if DaysInYear (YearFromTime t) = 366 then 1 else 0) = InLeapYear t"
    by (simp add: InLeapYear_def)
  have "monthStart ?m (InLeapYear t) + DateFromTime t = DayWithinYear t + 1"
    using r by (simp add: monthStart_def DateFromTime_def Let_def)
  then show ?thesis
    by (simp add: MakeDay_def Let_def dm L DayWithinYear_def)
qed

lemma setDate_next: "setDate t (getDate t + 1) = t + msPerDay"
proof -
  have "setDate t (getDate t + 1) = (Day t + 1) * msPerDay + TimeWithinDay t"
    by (simp add: setDate_def getDate_def MakeDate_def MakeDay_same_month)
  also have "\<dots> = t + msPerDay"
    by (simp add: Day_def TimeWithinDay_def algebra_simps)
  finally show ?thesis .
qed


lemma div_bounds_add:
  fixes X D :: int
  assumes "0 < D"
  shows "D * (X div D) \<le> X" "X < D * (X div D) + D"
  using div_bounds [OF assms, of X] by (simp_all add: algebra_simps)

lemma DayFromYear_bounds:
  "146097 * y - 287811596 \<le> 400 * DayFromYear y"
  "400 * DayFromYear y \<le> 146097 * y - 287810501"
proof -
  define q1 q2 q3 where "q1 = (y - 1969) div 4" and "q2 = (y - 1901) div 100"
    and "q3 = (y - 1601) div 400"
  have a: "4 * q1 \<le> y - 1969" "y - 1969 < 4 * q1 + 4"
    unfolding q1_def by (rule div_bounds_add, simp)+
  have b: "100 * q2 \<le> y - 1901" "y - 1901 < 100 * q2 + 100"
    unfolding q2_def by (rule div_bounds_add, simp)+
  have c: "400 * q3 \<le> y - 1601" "y - 1601 < 400 * q3 + 400"
    unfolding q3_def by (rule div_bounds_add, simp)+
  have F: "400 * DayFromYear y = 146000 * y - 287620000 + 400 * q1 - 400 * q2 + 400 * q3"
    by (simp add: DayFromYear_def q1_def q2_def q3_def algebra_simps)
  show "146097 * y - 287811596 \<le> 400 * DayFromYear y"
    unfolding F using a b c by linarith
  show "400 * DayFromYear y \<le> 146097 * y - 287810501"
    unfolding F using a b c by linarith
qed

lemma YearFromTime_correct:
  "DayFromYear (YearFromTime t) \<le> Day t \<and> Day t < DayFromYear (YearFromTime t + 1)"
proof -
  define d where "d = Day t"
  define n where "n = (d * 400) div 146097"
  have n: "146097 * n \<le> d * 400" "d * 400 < 146097 * n + 146097"
    unfolding n_def by (rule div_bounds_add, simp)+
  have lo: "DayFromYear (1970 + n - 1) \<le> d"
    using DayFromYear_bounds(2) [of "1970 + n - 1"] n by (simp add: algebra_simps)
  have hi: "d < DayFromYear (1970 + n + 1 + 1)"
    using DayFromYear_bounds(1) [of "1970 + n + 1 + 1"] n by (simp add: algebra_simps)
  show ?thesis
    unfolding YearFromTime_def Let_def d_def [symmetric] n_def [symmetric]
    using lo hi by auto
qed

lemma digit_word:
  assumes "0 \<le> n" "n < 10"
  shows "(48::jschar) \<le> word_of_int (48 + n) \<and> word_of_int (48 + n) \<le> (57::jschar)"
proof -
  have t: "take_bit 16 (48 + n) = 48 + n"
    using assms by (intro take_bit_int_eq_self) simp_all
  have "uint (word_of_int (48 + n) :: jschar) = take_bit LENGTH(16) (48 + n)"
    by (rule uint_word_of_int_eq)
  then have u: "uint (word_of_int (48 + n) :: jschar) = 48 + n"
    using t by simp
  show ?thesis unfolding word_le_def u using assms by simp
qed

lemma decimal_digits: "0 \<le> n \<Longrightarrow> c \<in> set (decimal n) \<Longrightarrow> 48 \<le> c \<and> c \<le> 57"
proof (induction n arbitrary: c rule: decimal.induct)
  case (1 n)
  show ?case
  proof (cases "n < 10")
    case True
    then have "c = word_of_int (48 + n)" using "1.prems"(2) by (simp add: decimal.simps)
    then show ?thesis using digit_word [OF "1.prems"(1) True] by simp
  next
    case False
    then have "c \<in> set (decimal (n div 10)) \<or> c = word_of_int (48 + n mod 10)"
      using "1.prems"(2) by (subst (asm) decimal.simps) auto
    then show ?thesis
    proof
      assume "c \<in> set (decimal (n div 10))"
      moreover have "0 \<le> n div 10" using "1.prems"(1) by simp
      ultimately show ?thesis using "1.IH" False by blast
    next
      assume "c = word_of_int (48 + n mod 10)"
      then show ?thesis using digit_word [of "n mod 10"] by simp
    qed
  qed
qed

lemma padStart_digits:
  assumes "0 \<le> n" "c \<in> set (padStart k (decimal n))"
  shows "48 \<le> c \<and> c \<le> 57"
  using assms decimal_digits [of n c] by (auto simp: padStart_def)

lemma DayWithinYear_nonneg: "0 \<le> DayWithinYear t"
  using YearFromTime_correct [of t] by (simp add: DayWithinYear_def)

lemma DateFromTime_pos: "1 \<le> DateFromTime t"
proof -
  have L: "0 \<le> InLeapYear t" by (simp add: InLeapYear_def)
  show ?thesis
    using DayWithinYear_nonneg [of t] L
    by (simp add: DateFromTime_def MonthFromTime_def Let_def)
qed

lemma isoDate_no_T: "c \<in> set (isoDate t) \<Longrightarrow> c \<noteq> 84"
proof -
  assume c: "c \<in> set (isoDate t)"
  have y: "d \<in> set (isoYear y) \<Longrightarrow> d \<noteq> 84" for d y
    using padStart_digits [of y d 4] padStart_digits [of "\<bar>y\<bar>" d 6]
    by (auto simp: isoYear_def js_def split: if_splits)
  have m: "d \<in> set (padStart 2 (decimal (MonthFromTime t + 1))) \<Longrightarrow> d \<noteq> 84" for d
    using padStart_digits [of "MonthFromTime t + 1" d 2] MonthFromTime_range [of t] by auto
  have dd: "d \<in> set (padStart 2 (decimal (DateFromTime t))) \<Longrightarrow> d \<noteq> 84" for d
    using padStart_digits [of "DateFromTime t" d 2] DateFromTime_pos [of t] by auto
  show ?thesis using c y m dd by (auto simp: isoDate_def js_def)
qed

lemma beforeT_toISOString: "beforeT (toISOString t) = isoDate t"
proof -
  have "toISOString t = isoDate t @ 84 # tl (drop (length (isoDate t)) (toISOString t))"
    by (simp add: toISOString_def js_def)
  then obtain rest where r: "toISOString t = isoDate t @ 84 # rest" by blast
  show ?thesis
    unfolding beforeT_def r using isoDate_no_T [of _ t]
    by (simp add: takeWhile_append2)
qed

lemma getTomorrowDate_next_day: "getTomorrowDate t = isoDate (t + msPerDay)"
  by (simp add: getTomorrowDate_def Let_def setDate_next beforeT_toISOString)

subsection \<open>The query\<close>

lemma trim_no_outer_space:
  "trim s \<noteq> [] \<Longrightarrow> \<not> isWhiteSpace (hd (trim s)) \<and> \<not> isWhiteSpace (last (trim s))"
proof -
  assume ne: "trim s \<noteq> []"
  define u where "u = dropWhile isWhiteSpace (rev (dropWhile isWhiteSpace s))"
  have t: "trim s = rev u" by (simp add: trim_def u_def)
  then have u: "u \<noteq> []" using ne by simp
  then have h: "\<not> isWhiteSpace (hd u)" unfolding u_def by (rule hd_dropWhile)
  have "last u = hd (dropWhile isWhiteSpace s)"
  proof -
    have "rev (dropWhile isWhiteSpace s) = takeWhile isWhiteSpace (rev (dropWhile isWhiteSpace s)) @ u"
      by (simp add: u_def)
    then have "dropWhile isWhiteSpace s = rev u @ rev (takeWhile isWhiteSpace (rev (dropWhile isWhiteSpace s)))"
      by (metis rev_append rev_rev_ident)
    then have "hd (dropWhile isWhiteSpace s) = hd (rev u)" using u by (metis hd_append2 rev_is_Nil_conv)
    then show ?thesis using u by (simp add: hd_rev)
  qed
  moreover have "dropWhile isWhiteSpace s \<noteq> []"
  proof
    assume "dropWhile isWhiteSpace s = []"
    then have "u = []" unfolding u_def by (simp only: rev.simps dropWhile.simps)
    with u show False by simp
  qed
  ultimately have l: "\<not> isWhiteSpace (last u)" using hd_dropWhile [of isWhiteSpace s] by simp
  show ?thesis using h l u by (simp add: t hd_rev last_rev)
qed

section \<open>Properties of the report aggregator\<close>

lemma rd53_small: "\<bar>z\<bar> \<le> 9007199254740992 \<Longrightarrow> rd53 z = z"
  by (simp add: rd53_def)

lemma foldl_js_add_NaN: "foldl js_add NaN xs = NaN"
  by (induction xs) simp_all

lemma foldl_js_add_has_NaN: "NaN \<in> set xs \<Longrightarrow> foldl js_add acc xs = NaN"
proof (induction xs arbitrary: acc)
  case Nil
  then show ?case by simp
next
  case (Cons x xs)
  show ?case
  proof (cases "x = NaN")
    case True
    then have "js_add acc x = NaN" by (cases acc) simp_all
    then show ?thesis by (simp add: foldl_js_add_NaN)
  next
    case False
    then show ?thesis using Cons by simp
  qed
qed

lemma foldl_js_add_exact:
  assumes "NaN \<notin> set xs" "\<bar>a\<bar> + (\<Sum>x\<leftarrow>xs. \<bar>the_int x\<bar>) \<le> 9007199254740992"
  shows "foldl js_add (Num a) xs = Num (a + (\<Sum>x\<leftarrow>xs. the_int x))"
  using assms
proof (induction xs arbitrary: a)
  case Nil
  then show ?case by simp
next
  case (Cons x xs)
  then obtain b where x: "x = Num b" by (cases x) simp_all
  have s: "0 \<le> (\<Sum>x\<leftarrow>xs. \<bar>the_int x\<bar>)" by (rule sum_list_nonneg) auto
  have "\<bar>a + b\<bar> \<le> 9007199254740992" using Cons.prems(2) s by (simp add: x)
  then have r: "js_add (Num a) x = Num (a + b)" by (simp add: x rd53_small)
  have "\<bar>a + b\<bar> + (\<Sum>x\<leftarrow>xs. \<bar>the_int x\<bar>) \<le> 9007199254740992"
    using Cons.prems(2) by (simp add: x)
  then have "foldl js_add (Num (a + b)) xs = Num (a + b + (\<Sum>x\<leftarrow>xs. the_int x))"
    using Cons.IH Cons.prems(1) by simp
  then show ?case using r by (simp add: x)
qed

lemma getValues_rows:
  "getValues (Some \<lparr>rows = Some rs\<rparr>) (js ''metricValues'') =
     map valueOf (concat (map metricValues rs))"
  "getValues (Some \<lparr>rows = Some rs\<rparr>) (js ''dimensionValues'') =
     map valueOf (concat (map dimensionValues rs))"
proof -
  have k: "js ''dimensionValues'' \<noteq> js ''metricValues''" by (simp add: js_def)
  have m: "flatMap (\<lambda>(_, values). values)
         (filter (\<lambda>(key, _). key = js ''metricValues'') (flatMap entries rs)) =
       concat (map metricValues rs)"
    using k by (induction rs) (simp_all add: flatMap_def entries_def)
  have d: "flatMap (\<lambda>(_, values). values)
         (filter (\<lambda>(key, _). key = js ''dimensionValues'') (flatMap entries rs)) =
       concat (map dimensionValues rs)"
    using k by (induction rs) (simp_all add: flatMap_def entries_def)
  show "getValues (Some \<lparr>rows = Some rs\<rparr>) (js ''metricValues'') =
     map valueOf (concat (map metricValues rs))"
    by (simp add: getValues_def m)
  show "getValues (Some \<lparr>rows = Some rs\<rparr>) (js ''dimensionValues'') =
     map valueOf (concat (map dimensionValues rs))"
    by (simp add: getValues_def d)
qed

lemma getValues_empty:
  "getValues None k = []" "getValues (Some \<lparr>rows = None\<rparr>) k = []"
  "getValues (Some \<lparr>rows = Some []\<rparr>) k = []"
  by (simp_all add: getValues_def flatMap_def)


lemma counts_parsed: "counts (Some \<lparr>rows = Some rs\<rparr>) = foldl js_add (Num 0) (parsedMetrics rs)"
  by (simp add: counts_def getValues_rows parsedMetrics_def comp_def)

lemma counts_empty:
  "counts None = Num 0" "counts (Some \<lparr>rows = None\<rparr>) = Num 0"
  "counts (Some \<lparr>rows = Some []\<rparr>) = Num 0"
  by (simp_all add: counts_def getValues_empty)

text \<open>
  C6. For every list of rows, the total is the sum, in the arithmetic of Numbers, of the
  parsed metric values of all rows and all slots: NaN when one of them is NaN, and
  otherwise their integer sum, as long as the magnitudes add up to at most \<open>2 ^ 53\<close>
  (beyond that doubles round). The dimension values are those of all rows, in row
  order. Without rows, with an absent \<open>rows\<close> field and with a null report the total is 0
  and the list is empty.
\<close>

theorem aggregate_rows:
  "((\<Sum>x\<leftarrow>parsedMetrics rs. \<bar>the_int x\<bar>) \<le> 9007199254740992 \<longrightarrow>
      counts (Some \<lparr>rows = Some rs\<rparr>) =
        (if NaN \<in> set (parsedMetrics rs) then NaN
         else Num (\<Sum>x\<leftarrow>parsedMetrics rs. the_int x))) \<and>
   getValues (Some \<lparr>rows = Some rs\<rparr>) (js ''dimensionValues'') =
     map valueOf (concat (map dimensionValues rs)) \<and>
   counts (Some \<lparr>rows = Some []\<rparr>) = Num 0 \<and>
   getValues (Some \<lparr>rows = Some []\<rparr>) (js ''dimensionValues'') = [] \<and>
   counts (Some \<lparr>rows = None\<rparr>) = Num 0 \<and>
   getValues (Some \<lparr>rows = None\<rparr>) (js ''dimensionValues'') = [] \<and>
   counts None = Num 0 \<and> getValues None (js ''dimensionValues'') = []"
proof -
  have "counts (Some \<lparr>rows = Some rs\<rparr>) =
        (if NaN \<in> set (parsedMetrics rs) then NaN
         else Num (\<Sum>x\<leftarrow>parsedMetrics rs. the_int x))"
    if b: "(\<Sum>x\<leftarrow>parsedMetrics rs. \<bar>the_int x\<bar>) \<le> 9007199254740992"
  proof (cases "NaN \<in> set (parsedMetrics rs)")
    case True
    then show ?thesis by (simp add: counts_parsed foldl_js_add_has_NaN)
  next
    case False
    then show ?thesis using foldl_js_add_exact [of "parsedMetrics rs" 0] b
      by (simp add: counts_parsed)
  qed
  then show ?thesis by (simp add: getValues_rows getValues_empty counts_empty)
qed

theorem aggregate_rows_witness:
  "counts (Some \<lparr>rows = Some [
      \<lparr>dimensionValues = [Some \<lparr>value = Some (js ''/a'')\<rparr>],
       metricValues = [Some \<lparr>value = Some (js ''40'')\<rparr>, None]\<rparr>,
      \<lparr>dimensionValues = [Some \<lparr>value = Some (js ''/b'')\<rparr>],
       metricValues = [Some \<lparr>value = Some (js ''2'')\<rparr>]\<rparr>]\<rparr>) = Num 42"
proof -
  let ?rs = "[
      \<lparr>dimensionValues = [Some \<lparr>value = Some (js ''/a'')\<rparr>],
       metricValues = [Some \<lparr>value = Some (js ''40'')\<rparr>, None]\<rparr>,
      \<lparr>dimensionValues = [Some \<lparr>value = Some (js ''/b'')\<rparr>],
       metricValues = [Some \<lparr>value = Some (js ''2'')\<rparr>]\<rparr>]"
  have p: "parsedMetrics ?rs = [Num 40, Num 0, Num 2]" by code_simp
  show ?thesis using aggregate_rows [of ?rs] unfolding p by simp
qed

section \<open>Properties of the worker\<close>

lemma status_simps [simp]:
  "status (new_Response b st hs) = (case st of None \<Rightarrow> 200 | Some n \<Rightarrow> n)"
  "body (new_Response b st hs) = b"
  by (simp_all add: new_Response_def)

lemma status_responses [simp]:
  "status (catchResponse m t) = 500"
  "status (upstreamErrorResponse e) = 500"
  "status (badgeResponse c d) = 200"
  by (simp_all add: catchResponse_def upstreamErrorResponse_def badgeResponse_def)

text \<open>The outcomes of the steps of the handler.\<close>

lemma render_cases:
  "render cache request data = (es, r) \<Longrightarrow>
     (es = [] \<and> (\<exists>e. r = Inl e)) \<or>
     (\<exists>c d. es = [CachePut (badgeResponse c d)] \<and>
        r = Inr (badgeResponse c d, cache_put cache request (badgeResponse c d)))"
  by (auto simp: render_def Let_def split: if_splits)

lemma callBackend_cases:
  "callBackend cache request env w tok p = (es, r) \<Longrightarrow>
     (\<exists>call e. call = analyticsCall env tok (requestBody w p) \<and>
        es = [BackendFetch call] \<and> r = Inl e \<and>
        (backend w call = Inl e \<or> (\<exists>resp. backend w call = Inr resp \<and> ok resp))) \<or>
     (\<exists>call resp. call = analyticsCall env tok (requestBody w p) \<and>
        es = [BackendFetch call] \<and> backend w call = Inr resp \<and> \<not> ok resp \<and>
        r = Inr (upstreamErrorResponse (text resp), cache)) \<or>
     (\<exists>call resp c d. call = analyticsCall env tok (requestBody w p) \<and>
        es = [BackendFetch call, CachePut (badgeResponse c d)] \<and>
        backend w call = Inr resp \<and> ok resp \<and>
        r = Inr (badgeResponse c d, cache_put cache request (badgeResponse c d)))"
  unfolding callBackend_def Let_def
  by (auto split: sum.splits if_splits prod.splits dest!: render_cases)

lemma validate_cases:
  "validate cache request env w tok = (es, r) \<Longrightarrow>
     (method request \<noteq> js ''GET'' \<and> es = [] \<and>
        r = Inr (new_Response (js ''Method not allowed'') (Some 405) [], cache)) \<or>
     (method request = js ''GET'' \<and>
        (find_page_path w (searchParams request) = None \<or>
         find_page_path w (searchParams request) = Some []) \<and> es = [] \<and>
        r = Inr (new_Response (js ''page_path not available'') (Some 405) [], cache)) \<or>
     (method request = js ''GET'' \<and>
        (\<exists>p. find_page_path w (searchParams request) = Some p \<and> p \<noteq> [] \<and>
           callBackend cache request env w tok p = (es, r)))"
  unfolding validate_def by (auto split: option.splits if_splits)

lemma authenticate_cases:
  "authenticate cache request env w = (es, r) \<Longrightarrow>
     (\<exists>e. credentials w = Inl e \<and> es = [] \<and> r = Inl e) \<or>
     (\<exists>u e. credentials w = Inr u \<and> token w = Inl e \<and> es = [GetAuthToken] \<and> r = Inl e) \<or>
     (\<exists>u. credentials w = Inr u \<and> token w = Inr None \<and> es = [GetAuthToken] \<and>
        r = Inl (js ''generating Google auth token failed'')) \<or>
     (\<exists>u tok es'. credentials w = Inr u \<and> token w = Inr (Some tok) \<and> es = GetAuthToken # es' \<and>
        validate cache request env w tok = (es', r))"
  unfolding authenticate_def by (auto split: sum.splits option.splits prod.splits)


text \<open>All the runs of the handler.\<close>

lemma fetch_cases:
  assumes "fetch cache request env w = R"
  shows
    "(\<exists>resp. cache_match cache request = Some resp \<and>
        R = \<lparr>result_response = resp, result_cache = cache, result_events = []\<rparr>) \<or>
     (cache_match cache request = None \<and>
        (\<exists>e es. R = \<lparr>result_response = catchResponse e (catch_now w), result_cache = cache,
                   result_events = es\<rparr> \<and>
           (es = [] \<and> credentials w = Inl e \<or>
            es = [GetAuthToken] \<and> (\<exists>u. credentials w = Inr u) \<and>
              (token w = Inl e \<or>
               token w = Inr None \<and> e = js ''generating Google auth token failed'') \<or>
            (\<exists>call u tok p. es = [GetAuthToken, BackendFetch call] \<and> method request = js ''GET'' \<and>
               credentials w = Inr u \<and> token w = Inr (Some tok) \<and>
               find_page_path w (searchParams request) = Some p \<and> p \<noteq> [] \<and>
               call = analyticsCall env tok (requestBody w p) \<and>
               (backend w call = Inl e \<or> (\<exists>resp. backend w call = Inr resp \<and> ok resp)))))) \<or>
     (cache_match cache request = None \<and> (\<exists>u tok. credentials w = Inr u \<and> token w = Inr (Some tok)) \<and>
        method request \<noteq> js ''GET'' \<and>
        R = \<lparr>result_response = new_Response (js ''Method not allowed'') (Some 405) [],
             result_cache = cache, result_events = [GetAuthToken]\<rparr>) \<or>
     (cache_match cache request = None \<and> (\<exists>u tok. credentials w = Inr u \<and> token w = Inr (Some tok)) \<and>
        method request = js ''GET'' \<and>
        (find_page_path w (searchParams request) = None \<or>
         find_page_path w (searchParams request) = Some []) \<and>
        R = \<lparr>result_response = new_Response (js ''page_path not available'') (Some 405) [],
             result_cache = cache, result_events = [GetAuthToken]\<rparr>) \<or>
     (cache_match cache request = None \<and> method request = js ''GET'' \<and>
        (\<exists>call resp u tok p. credentials w = Inr u \<and> token w = Inr (Some tok) \<and>
           find_page_path w (searchParams request) = Some p \<and> p \<noteq> [] \<and>
           call = analyticsCall env tok (requestBody w p) \<and>
           backend w call = Inr resp \<and> \<not> ok resp \<and>
           R = \<lparr>result_response = upstreamErrorResponse (text resp), result_cache = cache,
                result_events = [GetAuthToken, BackendFetch call]\<rparr>)) \<or>
     (cache_match cache request = None \<and> method request = js ''GET'' \<and>
        (\<exists>call resp c d u tok p. credentials w = Inr u \<and> token w = Inr (Some tok) \<and>
           find_page_path w (searchParams request) = Some p \<and> p \<noteq> [] \<and>
           call = analyticsCall env tok (requestBody w p) \<and>
           backend w call = Inr resp \<and> ok resp \<and>
           R = \<lparr>result_response = badgeResponse c d,
                result_cache = cache_put cache request (badgeResponse c d),
                result_events = [GetAuthToken, BackendFetch call, CachePut (badgeResponse c d)]\<rparr>))"
proof (cases "cache_match cache request")
  case (Some resp)
  then show ?thesis using assms by (simp add: fetch_def)
next
  case None
  obtain es r where a: "authenticate cache request env w = (es, r)" by (cases "authenticate cache request env w")
  have R: "R = (case r of
             Inr (response, cache') \<Rightarrow>
               \<lparr>result_response = response, result_cache = cache', result_events = es\<rparr>
           | Inl message \<Rightarrow>
               \<lparr>result_response = catchResponse message (catch_now w), result_cache = cache,
                result_events = es\<rparr>)"
    using assms None a by (simp add: fetch_def split: sum.splits prod.splits)
  from authenticate_cases [OF a] show ?thesis
  proof (elim disjE exE conjE)
    fix u tok es'
    assume c: "credentials w = Inr u" "token w = Inr (Some tok)" "es = GetAuthToken # es'"
      and v: "validate cache request env w tok = (es', r)"
    from validate_cases [OF v] show ?thesis
    proof (elim disjE exE conjE)
      fix p
      assume p: "method request = js ''GET''" "find_page_path w (searchParams request) = Some p" "p \<noteq> []"
        and b: "callBackend cache request env w tok p = (es', r)"
      from callBackend_cases [OF b] show ?thesis
        using None R c p by (elim disjE exE conjE) (simp_all, blast+)
    qed (use None R c in simp_all)
  qed (use None R in auto)
qed

text \<open>
  C2. The response cache is written only after a complete render. In every run of the
  handler: if there is a write to the cache, or the cache afterwards differs, then the
  request missed the cache, the response is the rendered badge with status 200, and
  that response is what was written, under the URL of the request; a response with
  another status leaves the cache as it was, with no write; and when the backend
  answered the call with a response that is not \<open>ok\<close>, the response has status 500, its
  body is the JSON object holding the text of the backend's response under \<open>error\<close>, and
  nothing is written.
\<close>

theorem cache_written_only_after_render:
  "(let R = fetch cache request env w in
     (((\<exists>r. CachePut r \<in> set (result_events R)) \<or> result_cache R \<noteq> cache) \<longrightarrow>
        cache_match cache request = None \<and>
        status (result_response R) = 200 \<and>
        (\<exists>c d. result_response R = badgeResponse c d) \<and>
        result_cache R = cache_put cache request (result_response R) \<and>
        (\<forall>r. CachePut r \<in> set (result_events R) \<longrightarrow> r = result_response R)) \<and>
     (status (result_response R) \<noteq> 200 \<longrightarrow>
        result_cache R = cache \<and> (\<forall>r. CachePut r \<notin> set (result_events R))) \<and>
     (\<forall>call resp.
        BackendFetch call \<in> set (result_events R) \<and> backend w call = Inr resp \<and> \<not> ok resp \<longrightarrow>
        status (result_response R) = 500 \<and>
        body (result_response R) =
          JSON_stringify (JObject [(js ''error'', JString (text resp))]) 4 \<and>
        result_cache R = cache \<and> (\<forall>r. CachePut r \<notin> set (result_events R))))"
proof -
  have u: "body (upstreamErrorResponse e) = JSON_stringify (JObject [(js ''error'', JString e)]) 4"
    for e by (simp add: upstreamErrorResponse_def)
  show ?thesis
    unfolding Let_def
    using fetch_cases [OF refl, of cache request env w]
    by (elim disjE exE conjE) (auto simp: u)
qed


theorem cache_written_only_after_render_witness:
  "status (result_response (fetch Map.empty sampleRequest sampleEnv sampleRefused)) = 500 \<and>
   body (result_response (fetch Map.empty sampleRequest sampleEnv sampleRefused)) =
     JSON_stringify (JObject [(js ''error'', JString (js ''quota exceeded''))]) 4 \<and>
   (\<forall>r. CachePut r \<notin> set (result_events (fetch Map.empty sampleRequest sampleEnv sampleRefused)))"
proof -
  let ?R = "fetch Map.empty sampleRequest sampleEnv sampleRefused"
  let ?call = "analyticsCall sampleEnv (js ''t0'') (requestBody sampleRefused (js ''post''))"
  let ?resp = "\<lparr>ok = False, text = js ''quota exceeded'', json = Inl (js ''no JSON'')\<rparr>"
  have e: "result_events ?R = [GetAuthToken, BackendFetch ?call]" by code_simp
  have b: "backend sampleRefused ?call = Inr ?resp"
    by (simp add: sampleRefused_def)
  have "BackendFetch ?call \<in> set (result_events ?R) \<and> backend sampleRefused ?call = Inr ?resp \<and>
        \<not> ok ?resp"
    using e b by simp
  then show ?thesis
    using cache_written_only_after_render [of Map.empty sampleRequest sampleEnv sampleRefused]
    unfolding Let_def by (metis BackendResponse.select_convs(2))
qed

text \<open>
  C3, as the handler has it. After a cache miss, a request that is not a GET, or
  that has no \<open>page_path\<close> parameter or an empty one, never makes the handler call
  the backend or write the cache, and is answered with status 405 or 500. When token acquisition succeeded the answer is the plain text response with status 405:
  \<open>Method not allowed\<close> for another method than GET, \<open>page_path not available\<close> for a
  GET without a value for \<open>page_path\<close>.
\<close>

theorem invalid_request_no_backend_call:
  assumes "cache_match cache request = None"
  shows
    "(let R = fetch cache request env w in
       (method request \<noteq> js ''GET'' \<or> find_page_path w (searchParams request) = None \<or>
        find_page_path w (searchParams request) = Some [] \<longrightarrow>
          (\<forall>call. BackendFetch call \<notin> set (result_events R)) \<and>
          (\<forall>r. CachePut r \<notin> set (result_events R)) \<and>
          (status (result_response R) = 405 \<or> status (result_response R) = 500)) \<and>
       ((\<exists>u tok. credentials w = Inr u \<and> token w = Inr (Some tok)) \<longrightarrow>
          (method request \<noteq> js ''GET'' \<longrightarrow>
             result_response R =
               \<lparr>status = 405,
                headers = [(js ''content-type'', js ''text/plain;charset=UTF-8'')],
                body = js ''Method not allowed''\<rparr>) \<and>
          (method request = js ''GET'' \<and>
           (find_page_path w (searchParams request) = None \<or>
            find_page_path w (searchParams request) = Some []) \<longrightarrow>
             result_response R =
               \<lparr>status = 405,
                headers = [(js ''content-type'', js ''text/plain;charset=UTF-8'')],
                body = js ''page_path not available''\<rparr>)))"
proof -
  have n: "new_Response b (Some 405) [] =
      \<lparr>status = 405, headers = [(js ''content-type'', js ''text/plain;charset=UTF-8'')], body = b\<rparr>"
    for b by (simp add: new_Response_def)
  show ?thesis
    unfolding Let_def
    using fetch_cases [OF refl, of cache request env w] assms
    by (elim disjE exE conjE) (auto simp: n)
qed

theorem invalid_request_no_backend_call_witness:
  "result_response (fetch Map.empty samplePost sampleEnv sampleWorld) =
     \<lparr>status = 405, headers = [(js ''content-type'', js ''text/plain;charset=UTF-8'')],
      body = js ''Method not allowed''\<rparr> \<and>
   result_response (fetch Map.empty sampleBare sampleEnv sampleWorld) =
     \<lparr>status = 405, headers = [(js ''content-type'', js ''text/plain;charset=UTF-8'')],
      body = js ''page_path not available''\<rparr> \<and>
   (\<forall>call. BackendFetch call \<notin> set (result_events (fetch Map.empty samplePost sampleEnv sampleWorld)))"
proof -
  have m: "cache_match Map.empty samplePost = None" "cache_match Map.empty sampleBare = None"
    by (simp_all add: cache_match_def)
  have p: "method samplePost \<noteq> js ''GET''" by code_simp
  have b: "method sampleBare = js ''GET''" "find_page_path sampleWorld (searchParams sampleBare) = None"
    by code_simp+
  have t: "\<exists>u tok. credentials sampleWorld = Inr u \<and> token sampleWorld = Inr (Some tok)"
    by (simp add: sampleWorld_def)
  show ?thesis
    using invalid_request_no_backend_call [OF m(1), of sampleEnv sampleWorld]
      invalid_request_no_backend_call [OF m(2), of sampleEnv sampleWorld] p b t
    unfolding Let_def by blast
qed

text \<open>
  The claim C3 as it is written fails: a POST whose token acquisition yields no token is
  answered with status 500, not 405.
\<close>

theorem post_without_token_counterexample:
  "cache_match Map.empty samplePost = None \<and> method samplePost \<noteq> js ''GET'' \<and>
   status (result_response (fetch Map.empty samplePost sampleEnv sampleNoToken)) = 500"
  by code_simp

text \<open>
  C9. After a cache miss the handler acquires the token before it looks at the method
  or at \<open>page_path\<close>: once the credentials are read, the first effect of every run is
  the token request. So whenever reading the credentials or acquiring the token
  throws, or no token comes back, the response is the JSON error of the \<open>catch\<close> block with
  status 500, whatever the method and the parameters are; it is never the response
  with status 405, and the backend is not called.
\<close>

theorem auth_failure_before_validation:
  assumes "cache_match cache request = None"
  shows
    "(let R = fetch cache request env w in
       ((\<exists>u. credentials w = Inr u) \<longrightarrow> take 1 (result_events R) = [GetAuthToken]) \<and>
       ((\<exists>e. credentials w = Inl e) \<or> (\<exists>e. token w = Inl e) \<or> token w = Inr None \<longrightarrow>
          status (result_response R) = 500 \<and>
          status (result_response R) \<noteq> 405 \<and>
          headers (result_response R) = [(js ''Content-Type'', js ''application/json'')] \<and>
          (\<exists>m. m \<noteq> [] \<and>
             body (result_response R) =
               JSON_stringify (JObject [
                 (js ''error'', JString m),
                 (js ''timestamp'', JString (toISOString (catch_now w)))]) 0) \<and>
          (\<forall>call. BackendFetch call \<notin> set (result_events R)) \<and>
          result_cache R = cache))"
proof -
  have c: "headers (catchResponse e t) = [(js ''Content-Type'', js ''application/json'')]"
    "\<exists>m. m \<noteq> [] \<and> body (catchResponse e t) =
       JSON_stringify (JObject [(js ''error'', JString m), (js ''timestamp'', JString (toISOString t))]) 0"
    for e t
  proof -
    have "asciiLowerCase (js ''Content-Type'') = js ''content-type''" by code_simp
    then show "headers (catchResponse e t) = [(js ''Content-Type'', js ''application/json'')]"
      by (simp add: catchResponse_def new_Response_def)
    have "js ''Internal server error'' \<noteq> []" by (simp add: js_def)
    then show "\<exists>m. m \<noteq> [] \<and> body (catchResponse e t) =
       JSON_stringify (JObject [(js ''error'', JString m), (js ''timestamp'', JString (toISOString t))]) 0"
      by (cases "e = []") (auto simp: catchResponse_def)
  qed
  show ?thesis
    unfolding Let_def
    using fetch_cases [OF refl, of cache request env w] assms c
    by (elim disjE exE conjE) auto
qed

theorem auth_failure_before_validation_witness:
  "take 1 (result_events (fetch Map.empty samplePost sampleEnv sampleNoToken)) = [GetAuthToken] \<and>
   status (result_response (fetch Map.empty samplePost sampleEnv sampleNoToken)) = 500 \<and>
   headers (result_response (fetch Map.empty samplePost sampleEnv sampleNoToken)) =
     [(js ''Content-Type'', js ''application/json'')]"
proof -
  have m: "cache_match Map.empty samplePost = None" by (simp add: cache_match_def)
  have t: "credentials sampleNoToken = Inr ()" "token sampleNoToken = Inr None"
    by (simp_all add: sampleNoToken_def sampleWorld_def)
  show ?thesis
    using auth_failure_before_validation [OF m, of sampleEnv sampleNoToken] t
    unfolding Let_def by simp
qed

text \<open>
  Every response in a reachable cache is a badge that the handler rendered.
\<close>

lemma reachable_badges:
  "reachable cache \<Longrightarrow> cache u = Some r \<Longrightarrow> \<exists>c d. r = badgeResponse c d"
proof (induction arbitrary: u r rule: reachable.induct)
  case empty
  then show ?case by simp
next
  case (request cache request env w)
  from fetch_cases [OF refl, of cache request env w]
  have "result_cache (fetch cache request env w) = cache \<or>
        (\<exists>c d. result_cache (fetch cache request env w) = cache_put cache request (badgeResponse c d))"
    by (elim disjE exE conjE) auto
  then show ?case using request by (auto simp: cache_put_def split: if_splits) blast+
next
  case (evict cache v)
  then show ?case by (auto split: if_splits)
qed

text \<open>
  C1, as the handler has it. A missing metric value counts as 0. When every metric value
  parses to an integer, the total is the sum of these integers (as long as the
  magnitudes add up to at most \<open>2 ^ 53\<close>). When some value string has no integer at its
  start, \<open>parseInt\<close> gives NaN for it and the total is NaN. In no case does the
  aggregation throw: with all dimension values present the render succeeds with
  status 200, whatever the metric values are.
\<close>

theorem metric_values_parsed:
  "parseMetric None = Num 0 \<and>
   (NaN \<in> set (parsedMetrics rs) \<longrightarrow> counts (Some \<lparr>rows = Some rs\<rparr>) = NaN) \<and>
   (NaN \<notin> set (parsedMetrics rs) \<and>
    (\<Sum>x\<leftarrow>parsedMetrics rs. \<bar>the_int x\<bar>) \<le> 9007199254740992 \<longrightarrow>
      counts (Some \<lparr>rows = Some rs\<rparr>) = Num (\<Sum>x\<leftarrow>parsedMetrics rs. the_int x)) \<and>
   (None \<notin> set (getValues (Some \<lparr>rows = Some rs\<rparr>) (js ''dimensionValues'')) \<longrightarrow>
      (\<exists>response. status response = 200 \<and>
         render cache request (Some \<lparr>rows = Some rs\<rparr>) =
           ([CachePut response], Inr (response, cache_put cache request response))))"
proof -
  have z: "parseMetric None = Num 0"
  proof -
    have "parseInt (js ''0'') = Num 0" by code_simp
    then show ?thesis by (simp add: parseMetric_def)
  qed
  have r: "\<exists>response. status response = 200 \<and>
         render cache request (Some \<lparr>rows = Some rs\<rparr>) =
           ([CachePut response], Inr (response, cache_put cache request response))"
    if "None \<notin> set (getValues (Some \<lparr>rows = Some rs\<rparr>) (js ''dimensionValues''))"
    using that by (simp add: render_def Let_def)
  show ?thesis
    using z r foldl_js_add_has_NaN [of "parsedMetrics rs" "Num 0"]
      foldl_js_add_exact [of "parsedMetrics rs" 0]
    by (simp add: counts_parsed)
qed

theorem metric_values_parsed_witness:
  "counts (Some \<lparr>rows = Some sampleMixedRows\<rparr>) = NaN \<and>
   counts (Some \<lparr>rows = Some sampleRows\<rparr>) = Num 42"
proof -
  have p: "parsedMetrics sampleMixedRows = [NaN, Num 5]" by code_simp
  have q: "parsedMetrics sampleRows = [Num 42]" by code_simp
  have 1: "counts (Some \<lparr>rows = Some sampleMixedRows\<rparr>) = NaN"
    using metric_values_parsed [of sampleMixedRows] unfolding p by simp
  have 2: "counts (Some \<lparr>rows = Some sampleRows\<rparr>) = Num 42"
    using metric_values_parsed [of sampleRows] unfolding q by simp
  show ?thesis using 1 2 by simp
qed

text \<open>
  The claim C1 as it is written fails: of the two metric values \<open>abc\<close> and \<open>5\<close> the
  second parses to 5, but the total is NaN, not 5, and the badge reads \<open>NaNM\<close>.
\<close>

theorem non_numeric_metric_counterexample:
  "parsedMetrics sampleMixedRows = [NaN, Num 5] \<and>
   counts (Some \<lparr>rows = Some sampleMixedRows\<rparr>) = NaN \<and>
   counts (Some \<lparr>rows = Some sampleMixedRows\<rparr>) \<noteq> Num 5 \<and>
   formatNumber (counts (Some \<lparr>rows = Some sampleMixedRows\<rparr>)) = js ''NaNM''"
  by code_simp

section \<open>Properties of the query\<close>

lemma requestBody_fields:
  "requestBody w page_path =
     JObject [
       (js ''dateRanges'', JArray [JObject [
         (js ''startDate'', JString (js ''2024-01-01'')),
         (js ''endDate'', JString (isoDate (now w + msPerDay)))]]),
       (js ''dimensions'', JArray [JObject [
         (js ''name'', JString (js ''pagePath''))]]),
       (js ''dimensionFilter'', JObject [
         (js ''filter'', JObject [
           (js ''fieldName'', JString (js ''pagePath'')),
           (js ''stringFilter'', JObject [
             (js ''matchType'', JString (js ''CONTAINS'')),
             (js ''value'', JString (trim (toLowerCase w page_path)))])])]),
       (js ''metrics'', JArray [JObject [
         (js ''name'', JString (js ''screenPageViews''))]])]"
  by (simp add: requestBody_def getTomorrowDate_next_day)

lemma backend_call_body:
  assumes "BackendFetch call \<in> set (result_events (fetch cache request env w))"
  shows "\<exists>p. find_page_path w (searchParams request) = Some p \<and> p \<noteq> [] \<and>
           call_body call = JSON_stringify (requestBody w p) 0"
proof -
  have b: "call_body (analyticsCall env tok q) = JSON_stringify q 0" for tok q
    by (simp add: analyticsCall_def)
  from fetch_cases [OF refl, of cache request env w] assms show ?thesis
    by (elim disjE exE conjE) (auto simp: b)
qed

lemma trim_subset: "set (trim s) \<subseteq> set s"
proof -
  have "set (trim s) \<subseteq> set (rev (dropWhile isWhiteSpace s))"
    unfolding trim_def using set_dropWhileD by fastforce
  also have "\<dots> \<subseteq> set s" using set_dropWhileD by fastforce
  finally show ?thesis .
qed

lemma asciiLowerCase_no_capital:
  assumes "c \<in> set (trim (asciiLowerCase s))"
  shows "\<not> (65 \<le> c \<and> c \<le> 90)"
proof -
  have f: "\<not> (65 \<le> (if 65 \<le> d \<and> d \<le> 90 then d + 32 else d) \<and>
           (if 65 \<le> d \<and> d \<le> 90 then d + 32 else d) \<le> 90)" for d :: jschar
    by (auto simp: word_le_nat_alt unat_word_ariths unat_arith_simps)
  have "c \<in> set (asciiLowerCase s)" using assms trim_subset by blast
  then obtain d where c: "c = (if 65 \<le> d \<and> d \<le> 90 then d + 32 else d)"
    unfolding asciiLowerCase_def by (auto simp only: set_map)
  show ?thesis unfolding c by (rule f)
qed

text \<open>
  C7. For every page path, every clock and every case mapping of the runtime, the
  query starts its date range at \<open>2024-01-01\<close> and ends it at the UTC date of the
  instant one day after the clock (\<open>setDate(getDate() + 1)\<close> carries into the next
  month and year), its match type is \<open>CONTAINS\<close>, and its filter value is the page path
  after \<open>toLowerCase\<close> and then \<open>trim\<close>, so without white space at either end. On
  Basic Latin text \<open>toLowerCase\<close> moves the letters \<open>A\<close>..\<open>Z\<close> and nothing else; with
  that, the filter value of a Basic Latin page path has no capital \<open>A\<close>..\<open>Z\<close> left.
  This query is what the handler sends: the body of every call to the backend is the
  serialised query for the \<open>page_path\<close> of the request.
\<close>

theorem requestBody_query:
  "Option.bind (Option.bind (member (js ''dateRanges'') (requestBody w page_path)) (element 0))
     (member (js ''startDate'')) = Some (JString (js ''2024-01-01'')) \<and>
   Option.bind (Option.bind (member (js ''dateRanges'') (requestBody w page_path)) (element 0))
     (member (js ''endDate'')) = Some (JString (isoDate (now w + msPerDay))) \<and>
   Option.bind (Option.bind (Option.bind (member (js ''dimensionFilter'') (requestBody w page_path))
     (member (js ''filter''))) (member (js ''stringFilter''))) (member (js ''matchType''))
     = Some (JString (js ''CONTAINS'')) \<and>
   Option.bind (Option.bind (Option.bind (member (js ''dimensionFilter'') (requestBody w page_path))
     (member (js ''filter''))) (member (js ''stringFilter''))) (member (js ''value''))
     = Some (JString (trim (toLowerCase w page_path))) \<and>
   (trim (toLowerCase w page_path) \<noteq> [] \<longrightarrow>
      \<not> isWhiteSpace (hd (trim (toLowerCase w page_path))) \<and>
      \<not> isWhiteSpace (last (trim (toLowerCase w page_path)))) \<and>
   ((\<forall>s. (\<forall>c \<in> set s. c < 128) \<longrightarrow> toLowerCase w s = asciiLowerCase s) \<and>
    (\<forall>c \<in> set page_path. c < 128) \<longrightarrow>
      trim (toLowerCase w page_path) = trim (asciiLowerCase page_path) \<and>
      (\<forall>c \<in> set (trim (toLowerCase w page_path)). \<not> (65 \<le> c \<and> c \<le> 90))) \<and>
   (\<forall>call. BackendFetch call \<in> set (result_events (fetch cache request env w)) \<longrightarrow>
      (\<exists>p. find_page_path w (searchParams request) = Some p \<and> p \<noteq> [] \<and>
         call_body call = JSON_stringify (requestBody w p) 0))"
proof -
  have 0: "(\<forall>s. (\<forall>c \<in> set s. c < 128) \<longrightarrow> toLowerCase w s = asciiLowerCase s) \<and>
    (\<forall>c \<in> set page_path. c < 128) \<longrightarrow>
      trim (toLowerCase w page_path) = trim (asciiLowerCase page_path) \<and>
      (\<forall>c \<in> set (trim (toLowerCase w page_path)). \<not> (65 \<le> c \<and> c \<le> 90))"
    using asciiLowerCase_no_capital [of _ page_path] by auto
  have 1: "(\<forall>call. BackendFetch call \<in> set (result_events (fetch cache request env w)) \<longrightarrow>
      (\<exists>p. find_page_path w (searchParams request) = Some p \<and> p \<noteq> [] \<and>
         call_body call = JSON_stringify (requestBody w p) 0))"
    using backend_call_body by blast
  have 2: "trim (toLowerCase w page_path) \<noteq> [] \<longrightarrow>
      \<not> isWhiteSpace (hd (trim (toLowerCase w page_path))) \<and>
      \<not> isWhiteSpace (last (trim (toLowerCase w page_path)))"
    using trim_no_outer_space [of "toLowerCase w page_path"] by blast
  have 3: "Option.bind (Option.bind (member (js ''dateRanges'') (requestBody w page_path)) (element 0))
     (member (js ''startDate'')) = Some (JString (js ''2024-01-01''))"
    "Option.bind (Option.bind (member (js ''dateRanges'') (requestBody w page_path)) (element 0))
     (member (js ''endDate'')) = Some (JString (isoDate (now w + msPerDay)))"
    "Option.bind (Option.bind (Option.bind (member (js ''dimensionFilter'') (requestBody w page_path))
     (member (js ''filter''))) (member (js ''stringFilter''))) (member (js ''matchType''))
     = Some (JString (js ''CONTAINS''))"
    "Option.bind (Option.bind (Option.bind (member (js ''dimensionFilter'') (requestBody w page_path))
     (member (js ''filter''))) (member (js ''stringFilter''))) (member (js ''value''))
     = Some (JString (trim (toLowerCase w page_path)))"
    unfolding requestBody_fields by (simp_all add: js_def)
  show ?thesis using 0 1 2 3 by (intro conjI)
qed

theorem requestBody_query_witness:
  \<open>Option.bind (Option.bind (member (js ''dateRanges'')
       (requestBody (sampleWorld\<lparr>now := 1709164800000\<rparr>) (js '' /Blog/Post ''))) (element 0))
     (member (js ''endDate'')) = Some (JString (js ''2024-03-01'')) \<and>
   Option.bind (Option.bind (Option.bind (member (js ''dimensionFilter'')
       (requestBody (sampleWorld\<lparr>now := 1709164800000\<rparr>) (js '' /Blog/Post '')))
     (member (js ''filter''))) (member (js ''stringFilter''))) (member (js ''value''))
     = Some (JString (js ''/blog/post'')) \<and>
   js ''/blog/post'' \<noteq> [] \<and>
   \<not> isWhiteSpace (hd (js ''/blog/post'')) \<and> \<not> isWhiteSpace (last (js ''/blog/post'')) \<and>
   list_all (\<lambda>c. \<not> (65 \<le> c \<and> c \<le> 90)) (js ''/blog/post'') \<and>
   BackendFetch (analyticsCall sampleEnv (js ''t0'') (requestBody sampleWorld (js '' /Blog/Post '')))
     \<in> set (result_events (fetch Map.empty sampleMixedCase sampleEnv sampleWorld)) \<and>
   (\<exists>p. find_page_path sampleWorld (searchParams sampleMixedCase) = Some p \<and> p \<noteq> [] \<and>
      call_body (analyticsCall sampleEnv (js ''t0'') (requestBody sampleWorld (js '' /Blog/Post '')))
        = JSON_stringify (requestBody sampleWorld p) 0) \<and>
   JSON_stringify (requestBody sampleWorld (js '' /Blog/Post '')) 0 =
     js ''{"dateRanges":[{"startDate":"2024-01-01","endDate":"2026-11-03"}],'' @
     js ''"dimensions":[{"name":"pagePath"}],"dimensionFilter":{"filter":{"fieldName":"pagePath",'' @
     js ''"stringFilter":{"matchType":"CONTAINS","value":"/blog/post"}}},'' @
     js ''"metrics":[{"name":"screenPageViews"}]}''\<close>
proof -
  let ?w = "sampleWorld\<lparr>now := 1709164800000\<rparr>"
  let ?call = "analyticsCall sampleEnv (js ''t0'') (requestBody sampleWorld (js '' /Blog/Post ''))"
  have d: "isoDate (now ?w + msPerDay) = js ''2024-03-01''" by code_simp
  have v: "trim (toLowerCase ?w (js '' /Blog/Post '')) = js ''/blog/post''" by code_simp
  have e: "BackendFetch ?call \<in> set (result_events (fetch Map.empty sampleMixedCase sampleEnv sampleWorld))"
    by code_simp
  have j: \<open>JSON_stringify (requestBody sampleWorld (js '' /Blog/Post '')) 0 =
     js ''{"dateRanges":[{"startDate":"2024-01-01","endDate":"2026-11-03"}],'' @
     js ''"dimensions":[{"name":"pagePath"}],"dimensionFilter":{"filter":{"fieldName":"pagePath",'' @
     js ''"stringFilter":{"matchType":"CONTAINS","value":"/blog/post"}}},'' @
     js ''"metrics":[{"name":"screenPageViews"}]}''\<close>
    by code_simp
  have n: "js ''/blog/post'' \<noteq> []" by (simp add: js_def)
  have a: "\<forall>s. (\<forall>c \<in> set s. c < 128) \<longrightarrow> toLowerCase ?w s = asciiLowerCase s"
    by (simp add: sampleWorld_def)
  have l: "\<forall>c \<in> set (js '' /Blog/Post ''). c < 128" by code_simp
  show ?thesis
    using requestBody_query [of ?w "js '' /Blog/Post ''" Map.empty sampleMixedCase sampleEnv]
      requestBody_query [of sampleWorld "js '' /Blog/Post ''" Map.empty sampleMixedCase sampleEnv]
      e j n a l
    unfolding d v list_all_iff by blast
qed

section \<open>Properties of the badge renderer\<close>

subsection \<open>Occurrences and the substitution\<close>

lemma occursIn_iff: "occursIn p s \<longleftrightarrow> (\<exists>x y. s = x @ p @ y)"
proof
  show "occursIn p s \<Longrightarrow> \<exists>x y. s = x @ p @ y"
  proof (induction s)
    case Nil
    then show ?case by simp
  next
    case (Cons c cs)
    show ?case
    proof (cases "take (length p) (c # cs) = p")
      case True
      then have "c # cs = [] @ p @ drop (length p) (c # cs)"
        by (metis append_Nil append_take_drop_id)
      then show ?thesis by blast
    next
      case False
      then have "occursIn p cs" using Cons.prems by simp
      then obtain x y where "cs = x @ p @ y" using Cons.IH by blast
      then have "c # cs = (c # x) @ p @ y" by simp
      then show ?thesis by blast
    qed
  qed
next
  assume "\<exists>x y. s = x @ p @ y"
  then obtain x y where s: "s = x @ p @ y" by blast
  show "occursIn p s" unfolding s
  proof (induction x)
    case Nil
    show ?case
    proof (cases "p @ y")
      case Nil
      then show ?thesis by simp
    next
      case (Cons a l)
      have "take (length p) (p @ y) = p" by simp
      then have "take (length p) (a # l) = p" by (simp only: Cons)
      then show ?thesis by (simp add: Cons)
    qed
  next
    case (Cons a x)
    then show ?case by simp
  qed
qed

lemma arrow_units: "js ''-->'' = [45, 45, 62]" "js ''--'' = [45, 45]"
  by (simp_all add: js_def)

lemma replaceAll_arrow_Nil: "replaceAll [45, 45, 62] r [] = []"
  by (simp add: replaceAll.simps)

lemma replaceAll_arrow_match:
  "replaceAll [45, 45, 62] r (45 # 45 # 62 # s) = r @ replaceAll [45, 45, 62] r s"
  by (subst replaceAll.simps) simp

lemma replaceAll_arrow_other:
  "take 3 (c # s) \<noteq> [45, 45, 62] \<Longrightarrow>
   replaceAll [45, 45, 62] r (c # s) = c # replaceAll [45, 45, 62] r s"
  by (subst replaceAll.simps) (auto simp: numeral_2_eq_2 numeral_3_eq_3)

lemma arrow_cases:
  obtains (nil) "s = []"
  | (match) s' where "s = 45 # 45 # 62 # s'"
  | (other) c cs where "s = c # cs" "take 3 (c # cs) \<noteq> [45, 45, (62::jschar)]"
proof (cases "take 3 s = [45, 45, 62]")
  case True
  then have "s = [45, 45, 62] @ drop 3 s" by (metis append_take_drop_id)
  then show ?thesis using match by simp
next
  case False
  then show ?thesis using nil other by (cases s) auto
qed

lemma replaceAll_head_gt:
  assumes "replaceAll [45, 45, 62] arrowSubstitute u = 62 # v"
  shows "\<exists>u'. u = 62 # u'"
proof (cases u rule: arrow_cases)
  case nil
  then show ?thesis using assms by (simp add: replaceAll_arrow_Nil)
next
  case (match s')
  then show ?thesis using assms by (simp add: replaceAll_arrow_match arrowSubstitute_def)
next
  case (other c cs)
  then show ?thesis using assms by (simp add: replaceAll_arrow_other)
qed

lemma replaceAll_head_dash_gt:
  assumes "replaceAll [45, 45, 62] arrowSubstitute u = 45 # 62 # v"
  shows "\<exists>u'. u = 45 # 62 # u'"
proof (cases u rule: arrow_cases)
  case nil
  then show ?thesis using assms by (simp add: replaceAll_arrow_Nil)
next
  case (match s')
  then show ?thesis using assms by (simp add: replaceAll_arrow_match arrowSubstitute_def)
next
  case (other c cs)
  then have "c = 45" "replaceAll [45, 45, 62] arrowSubstitute cs = 62 # v"
    using assms by (simp_all add: replaceAll_arrow_other)
  then show ?thesis using replaceAll_head_gt [of cs v] other(1) by auto
qed

lemma occursIn_arrow_Cons:
  "occursIn [45, 45, 62] (c # cs) \<longleftrightarrow>
     take 3 (c # cs) = [45, 45, 62] \<or> occursIn [45, 45, 62] cs"
  by (simp add: numeral_3_eq_3)

lemma replaceAll_no_arrow:
  "\<not> occursIn [45, 45, 62] (replaceAll [45, 45, 62] arrowSubstitute s)"
proof (induction s rule: length_induct)
  case (1 s)
  show ?case
  proof (cases s rule: arrow_cases)
    case nil
    then show ?thesis by (simp add: replaceAll_arrow_Nil)
  next
    case (match s')
    then have "\<not> occursIn [45, 45, 62] (replaceAll [45, 45, 62] arrowSubstitute s')"
      using "1.IH" by simp
    then show ?thesis by (simp add: match replaceAll_arrow_match arrowSubstitute_def)
  next
    case (other c cs)
    let ?t = "replaceAll [45, 45, 62] arrowSubstitute cs"
    have t: "\<not> occursIn [45, 45, 62] ?t" using "1.IH" other(1) by simp
    have "take 3 (c # ?t) \<noteq> [45, 45, 62]"
    proof
      assume a: "take 3 (c # ?t) = [45, 45, 62]"
      then have c: "c = 45" and "take 2 ?t = [45, 62]" by simp_all
      then have "?t = [45, 62] @ drop 2 ?t" by (metis append_take_drop_id)
      then have "?t = 45 # 62 # drop 2 ?t" by simp
      then obtain u' where "cs = 45 # 62 # u'" using replaceAll_head_dash_gt by blast
      then show False using other(2) c by simp
    qed
    moreover have "replaceAll [45, 45, 62] arrowSubstitute (c # cs) = c # ?t"
      using other(2) by (rule replaceAll_arrow_other)
    ultimately show ?thesis using t by (simp only: other(1) occursIn_arrow_Cons) simp
  qed
qed

lemma replaceAll_split:
  assumes "c0 \<noteq> 45" "c0 \<noteq> 62"
  shows "replaceAll [45, 45, 62] r (x @ c0 # y) =
         replaceAll [45, 45, 62] r x @ replaceAll [45, 45, 62] r (c0 # y)"
proof (induction x rule: length_induct)
  case (1 x)
  show ?case
  proof (cases x rule: arrow_cases)
    case nil
    then show ?thesis by (simp add: replaceAll_arrow_Nil)
  next
    case (match s')
    then show ?thesis using "1.IH" by (simp add: replaceAll_arrow_match)
  next
    case (other c cs)
    have "take 3 (c # cs @ c0 # y) \<noteq> [45, 45, 62]"
    proof (cases cs)
      case Nil
      then show ?thesis using assms by simp
    next
      case (Cons d ds)
      then show ?thesis using other(2) assms by (cases ds) auto
    qed
    then have "replaceAll [45, 45, 62] r (x @ c0 # y) =
        c # replaceAll [45, 45, 62] r (cs @ c0 # y)"
      by (simp add: other(1) replaceAll_arrow_other)
    then show ?thesis using "1.IH" other by (simp add: replaceAll_arrow_other)
  qed
qed

lemma comment_opening: "js ''<!-- METADATA: '' =
    [60, 33, 45, 45, 32, 77, 69, 84, 65, 68, 65, 84, 65, 58, 32]"
  by (simp add: js_def)

lemma comment_closing: "js '' -->'' = [32, 45, 45, 62]"
  by (simp add: js_def)

lemma comment_without_end:
  "butlast (metadataComment item) =
     replaceAll (js ''-->'') arrowSubstitute (js ''<!-- METADATA: '' @ item @ [32, 45, 45])"
proof -
  let ?X = "replaceAll [45, 45, 62] arrowSubstitute item"
  have t: "replaceAll [45, 45, 62] arrowSubstitute [32, 45, 45] = [32, 45, 45]"
    by (simp add: replaceAll_arrow_other replaceAll_arrow_Nil)
  have "replaceAll [45, 45, 62] arrowSubstitute (item @ 32 # [45, 45]) = ?X @ [32, 45, 45]"
    using replaceAll_split [of 32 arrowSubstitute item "[45, 45]"] t by simp
  then have "replaceAll [45, 45, 62] arrowSubstitute (js ''<!-- METADATA: '' @ item @ [32, 45, 45]) =
      js ''<!-- METADATA: '' @ ?X @ [32, 45, 45]"
    by (simp add: comment_opening replaceAll_arrow_other)
  moreover have "butlast (metadataComment item) = js ''<!-- METADATA: '' @ ?X @ [32, 45, 45]"
    by (simp add: metadataComment_def arrow_units comment_closing butlast_append)
  ultimately show ?thesis by (simp add: arrow_units)
qed

lemma comment_closes_at_end: "\<not> occursIn (js ''-->'') (butlast (metadataComment item))"
  unfolding comment_without_end by (simp add: arrow_units replaceAll_no_arrow)

subsection \<open>Scanning\<close>

lemma stable_digits:
  assumes "x_mode st = AttVal 34" "\<And>c. c \<in> set t \<Longrightarrow> 48 \<le> c \<and> c \<le> 57"
  shows "foldl xstep st t = st"
  using assms(2)
proof (induction t)
  case Nil
  then show ?case by simp
next
  case (Cons c t)
  have "48 \<le> c \<and> c \<le> 57" using Cons.prems by simp
  then have "c \<noteq> 34" "c \<noteq> 60" "c \<noteq> 38" by auto
  then have "xstep st c = st" using assms(1) by (simp add: xstep_def)
  then show ?case using Cons by simp
qed

lemma stable_plain:
  assumes "x_mode st = Content" "x_stack st \<noteq> []" "\<And>c. c \<in> set t \<Longrightarrow> c \<noteq> 60 \<and> c \<noteq> 38"
  shows "foldl xstep st t = st"
  using assms(3)
proof (induction t)
  case Nil
  then show ?case by simp
next
  case (Cons c t)
  then have "c \<noteq> 60" "c \<noteq> 38" by simp_all
  then have "xstep st c = st" using assms(1,2) by (simp add: xstep_def)
  then show ?case using Cons by simp
qed

lemma mode_Content_same: "x_mode st = Content \<Longrightarrow> st\<lparr>x_mode := Content\<rparr> = st"
  by simp

lemma scan_comment_opening:
  assumes "x_mode st = Content"
  shows "foldl xstep st (js ''<!-- METADATA: '') = st\<lparr>x_mode := Com\<rparr>"
  using assms by (simp add: comment_opening xstep_def)

lemma xstep_Com:
  "xstep (st\<lparr>x_mode := Com\<rparr>) c = (if c = 45 then st\<lparr>x_mode := ComDash\<rparr> else st\<lparr>x_mode := Com\<rparr>)"
  by (simp add: xstep_def)

lemma xstep_ComDash:
  "xstep (st\<lparr>x_mode := ComDash\<rparr>) c =
     (if c = 45 then st\<lparr>x_mode := ComDashDash\<rparr> else st\<lparr>x_mode := Com\<rparr>)"
  by (simp add: xstep_def)

lemma xstep_ComDashDash:
  "xstep (st\<lparr>x_mode := ComDashDash\<rparr>) c =
     (if c = 62 then st\<lparr>x_mode := Content\<rparr> else st\<lparr>x_mode := Bad\<rparr>)"
  by (simp add: xstep_def)

lemma scan_comment_body:
  assumes "\<not> occursIn [45, 45] X" "m = Com \<or> m = ComDash \<and> (X = [] \<or> hd X \<noteq> 45)"
  shows "\<exists>m'. (m' = Com \<or> m' = ComDash) \<and> foldl xstep (st\<lparr>x_mode := m\<rparr>) X = st\<lparr>x_mode := m'\<rparr>"
  using assms
proof (induction X arbitrary: m)
  case Nil
  then show ?case by auto
next
  case (Cons c X)
  have no: "\<not> occursIn [45, 45] X" and t: "take 2 (c # X) \<noteq> [45, 45]"
    using Cons.prems(1) by (simp_all add: numeral_2_eq_2)
  show ?case
  proof (cases "c = 45")
    case True
    then have m: "m = Com" using Cons.prems(2) by auto
    have h: "X = [] \<or> hd X \<noteq> 45" using t True by (cases X) auto
    have "xstep (st\<lparr>x_mode := m\<rparr>) c = st\<lparr>x_mode := ComDash\<rparr>"
      unfolding m xstep_Com using True by simp
    then show ?thesis using Cons.IH [OF no, of ComDash] h by simp
  next
    case False
    have "xstep (st\<lparr>x_mode := m\<rparr>) c = st\<lparr>x_mode := Com\<rparr>"
    proof (cases "m = Com")
      case True
      then show ?thesis unfolding True xstep_Com using False by simp
    next
      case m: False
      then have "m = ComDash" using Cons.prems(2) by auto
      then show ?thesis unfolding \<open>m = ComDash\<close> xstep_ComDash using False by simp
    qed
    then show ?thesis using Cons.IH [OF no, of Com] by simp
  qed
qed

lemma scan_comment_closing:
  assumes "m = Com \<or> m = ComDash"
  shows "foldl xstep (st\<lparr>x_mode := m\<rparr>) (js '' -->'') = st\<lparr>x_mode := Content\<rparr>"
proof -
  have "xstep (st\<lparr>x_mode := m\<rparr>) 32 = st\<lparr>x_mode := Com\<rparr>"
    using assms by (auto simp: xstep_Com xstep_ComDash)
  then show ?thesis
    by (simp add: comment_closing xstep_Com xstep_ComDash xstep_ComDashDash)
qed

lemma scan_comment:
  assumes "x_mode st = Content" "commentText (replaceAll (js ''-->'') arrowSubstitute item)"
  shows "foldl xstep st (metadataComment item) = st"
proof -
  let ?X = "replaceAll (js ''-->'') arrowSubstitute item"
  have "\<not> occursIn [45, 45] ?X" using assms(2) by (simp add: commentText_def arrow_units)
  then obtain m' where m: "m' = Com \<or> m' = ComDash"
    and b: "foldl xstep (st\<lparr>x_mode := Com\<rparr>) ?X = st\<lparr>x_mode := m'\<rparr>"
    using scan_comment_body [of ?X Com st] by auto
  have "foldl xstep st (metadataComment item) =
      foldl xstep (foldl xstep (foldl xstep st (js ''<!-- METADATA: '')) ?X) (js '' -->'')"
    by (simp add: metadataComment_def)
  also have "\<dots> = st\<lparr>x_mode := Content\<rparr>"
    by (simp only: scan_comment_opening [OF assms(1)] b scan_comment_closing [OF m])
  finally show ?thesis using assms(1) by simp
qed

lemma scan_comments:
  assumes "x_mode st = Content" "x_stack st \<noteq> []"
    "\<And>item. item \<in> set metadata \<Longrightarrow> commentText (replaceAll (js ''-->'') arrowSubstitute item)"
  shows "foldl xstep st (join [10] (map metadataComment metadata)) = st"
  using assms(3)
proof (induction metadata rule: induct_list012)
  case 1
  then show ?case by simp
next
  case (2 x)
  then show ?case using scan_comment [OF assms(1)] by simp
next
  case (3 x y zs)
  have "xstep st 10 = st" using assms(1,2) by (simp add: xstep_def)
  then show ?case using 3 scan_comment [OF assms(1), of x] by simp
qed

subsection \<open>The document in pieces\<close>

lemma weave_scan:
  assumes "stableFrom st fs ts" "length fs = Suc (length ts)"
  shows "foldl xstep st (weave fs ts) = foldl xstep st (concat fs)"
  using assms
proof (induction st fs ts rule: stableFrom.induct)
  case (1 st f fs t ts)
  then have "foldl xstep (foldl xstep st f) t = foldl xstep st f"
    and "foldl xstep (foldl xstep st f) (weave fs ts) = foldl xstep (foldl xstep st f) (concat fs)"
    by simp_all
  then show ?case by simp
qed simp_all

lemma validChars_bmp: "(\<And>c. c \<in> set s \<Longrightarrow> isBmpChar c) \<Longrightarrow> validChars s"
proof (induction s rule: validChars.induct)
  case 1
  then show ?case by simp
next
  case (2 c)
  then show ?case by simp
next
  case (3 c d cs)
  have "isBmpChar c" using "3.prems" by simp
  then have "\<not> isLeadingSurrogate c"
    by (auto simp: isBmpChar_def isLeadingSurrogate_def word_le_def)
  then show ?case using 3 by simp
qed

lemma validChars_append:
  "validChars a \<Longrightarrow> validChars b \<Longrightarrow> validChars (a @ b)"
proof (induction a rule: validChars.induct)
  case 1
  then show ?case by simp
next
  case (2 c)
  then have "\<not> isLeadingSurrogate c"
    by (auto simp: isBmpChar_def isLeadingSurrogate_def word_le_def)
  then show ?case using 2 by (cases b) simp_all
next
  case (3 c d cs)
  then show ?case by (cases "isLeadingSurrogate c") simp_all
qed

lemma validChars_concat: "(\<And>x. x \<in> set xs \<Longrightarrow> validChars x) \<Longrightarrow> validChars (concat xs)"
  by (induction xs) (simp_all add: validChars_append)

lemma weave_valid:
  assumes "\<And>f. f \<in> set fs \<Longrightarrow> validChars f" "\<And>t. t \<in> set ts \<Longrightarrow> validChars t"
  shows "validChars (weave fs ts)"
  using assms
  by (induction fs ts rule: weave.induct) (simp_all add: validChars_append validChars_concat)

lemma trim_same:
  assumes "s \<noteq> []" "\<not> isWhiteSpace (hd s)" "\<not> isWhiteSpace (last s)"
  shows "trim s = s"
proof -
  have 1: "dropWhile isWhiteSpace s = s" using assms(1,2) by (cases s) simp_all
  have "rev s \<noteq> []" "\<not> isWhiteSpace (hd (rev s))" using assms(1,3) by (simp_all add: hd_rev)
  then have 2: "dropWhile isWhiteSpace (rev s) = rev s" by (cases "rev s") simp_all
  show ?thesis by (simp add: trim_def 1 2)
qed

lemma badge_scan_steps:
  "foldl xstep xinit (badgeFixed 0) = badgeState 0"
  "foldl xstep (badgeState 0) (badgeFixed 1) = badgeState 1"
  "foldl xstep (badgeState 1) (badgeFixed 2) = badgeState 2"
  "foldl xstep (badgeState 2) (badgeFixed 3) = badgeState 3"
  "foldl xstep (badgeState 3) (badgeFixed 4) = badgeState 4"
  "foldl xstep (badgeState 4) (badgeFixed 5) = badgeState 5"
  "foldl xstep (badgeState 5) (badgeFixed 6) = badgeState 6"
  "foldl xstep (badgeState 6) (badgeFixed 7) = badgeState 7"
  "foldl xstep (badgeState 7) (badgeFixed 8) = badgeState 8"
  "foldl xstep (badgeState 8) (badgeFixed 9) = badgeState 9"
  "foldl xstep (badgeState 9) (badgeFixed 10) = badgeState 10"
  "foldl xstep (badgeState 10) (badgeFixed 11) = badgeState 11"
  "foldl xstep (badgeState 11) (badgeFixed 12) = badgeState 12"
  "foldl xstep (badgeState 12) (badgeFixed 13) = badgeState 13"
  "foldl xstep (badgeState 13) (badgeFixed 14) = badgeState 14"
  "foldl xstep (badgeState 14) (badgeFixed 15) = badgeState 15"
  by code_simp+

lemma badge_fixed_chars: "list_all isBmpChar (badgeFixed 0 @ badgeFixed 1 @ badgeFixed 2 @ badgeFixed 3 @ badgeFixed 4 @ badgeFixed 5 @ badgeFixed 6 @ badgeFixed 7 @ badgeFixed 8 @ badgeFixed 9 @ badgeFixed 10 @ badgeFixed 11 @ badgeFixed 12 @ badgeFixed 13 @ badgeFixed 14 @ badgeFixed 15)"
  by code_simp

lemma badge_fixed_ends: "hd (badgeFixed 0) = 60" "last (badgeFixed 15) = 62" "badgeFixed 0 \<noteq> []"
  "badgeFixed 15 \<noteq> []"
  by code_simp+

lemma generateBadge_weave:
  "generateBadge label value' metadata = weave [badgeFixed 0, badgeFixed 1, badgeFixed 2, badgeFixed 3, badgeFixed 4, badgeFixed 5, badgeFixed 6, badgeFixed 7, badgeFixed 8, badgeFixed 9, badgeFixed 10, badgeFixed 11, badgeFixed 12, badgeFixed 13, badgeFixed 14, badgeFixed 15] (badgeHoles label value' metadata)"
proof -
  let ?w = "weave [badgeFixed 0, badgeFixed 1, badgeFixed 2, badgeFixed 3, badgeFixed 4, badgeFixed 5, badgeFixed 6, badgeFixed 7, badgeFixed 8, badgeFixed 9, badgeFixed 10, badgeFixed 11, badgeFixed 12, badgeFixed 13, badgeFixed 14, badgeFixed 15] (badgeHoles label value' metadata)"
  have w: "?w \<noteq> []" "hd ?w = 60" "last ?w = 62"
    using badge_fixed_ends by (simp_all add: badgeHoles_def Let_def)
  have "\<not> isWhiteSpace 60" "\<not> isWhiteSpace 62" by (simp_all add: isWhiteSpace_def)
  then have t: "trim ?w = ?w" using w by (intro trim_same) simp_all
  have "generateBadge label value' metadata = trim ?w"
    by (simp add: generateBadge_def badgeHoles_def badgeFixed_def Let_def)
  then show ?thesis using t by simp
qed

lemma badgeState_modes:
  "k \<in> {0, 2, 3, 4, 5, 6, 7, 9, 11, 13} \<Longrightarrow> x_mode (badgeState k) = AttVal 34"
  "k \<in> {1, 8, 10, 12, 14} \<Longrightarrow> x_mode (badgeState k) = Content \<and> x_stack (badgeState k) \<noteq> []"
  "accepting (badgeState 15)"
  by (auto simp: badgeState_def accepting_def)

lemma badgeState_digits:
  assumes "k \<in> {0, 2, 3, 4, 5, 6, 7, 9, 11, 13}" "0 \<le> n"
  shows "foldl xstep (badgeState k) (decimal n) = badgeState k"
  using badgeState_modes(1) [OF assms(1)] decimal_digits [OF assms(2)] by (rule stable_digits)

lemma badgeState_plain:
  assumes "k \<in> {8, 10, 12, 14}" "plainText t"
  shows "foldl xstep (badgeState k) t = badgeState k"
  using badgeState_modes(2) [of k] assms by (intro stable_plain) (auto simp: plainText_def)

lemma badgeState_comments:
  assumes "\<And>item. item \<in> set metadata \<Longrightarrow> commentText (replaceAll (js ''-->'') arrowSubstitute item)"
  shows "foldl xstep (badgeState 1) (join [10] (map metadataComment metadata)) = badgeState 1"
  using badgeState_modes(2) [of 1] assms by (intro scan_comments) auto

lemma getTextWidth_nonneg: "0 \<le> getTextWidth s"
  by (simp add: getTextWidth_def)

lemma badge_scan:
  assumes "plainText label" "plainText value'"
    "\<And>item. item \<in> set metadata \<Longrightarrow> commentText (replaceAll (js ''-->'') arrowSubstitute item)"
  shows "scan (generateBadge label value' metadata) = badgeState 15"
proof -
  have n: "0 \<le> getTextWidth label" "0 \<le> getTextWidth value'"
    "0 \<le> getTextWidth label + getTextWidth value'"
    "0 \<le> getTextWidth label div 2"
    "0 \<le> getTextWidth label + getTextWidth value' div 2"
    using getTextWidth_nonneg [of label] getTextWidth_nonneg [of value']
    by (simp_all add: pos_imp_zdiv_nonneg_iff add_nonneg_nonneg)
  have s: "stableFrom xinit [badgeFixed 0, badgeFixed 1, badgeFixed 2, badgeFixed 3, badgeFixed 4, badgeFixed 5, badgeFixed 6, badgeFixed 7, badgeFixed 8, badgeFixed 9, badgeFixed 10, badgeFixed 11, badgeFixed 12, badgeFixed 13, badgeFixed 14, badgeFixed 15] (badgeHoles label value' metadata)"
    unfolding badgeHoles_def Let_def
    by (simp add: badge_scan_steps [unfolded One_nat_def] badgeState_digits badgeState_plain
        badgeState_comments [OF assms(3), unfolded One_nat_def] assms(1,2) n)
  have "foldl xstep xinit (weave [badgeFixed 0, badgeFixed 1, badgeFixed 2, badgeFixed 3, badgeFixed 4, badgeFixed 5, badgeFixed 6, badgeFixed 7, badgeFixed 8, badgeFixed 9, badgeFixed 10, badgeFixed 11, badgeFixed 12, badgeFixed 13, badgeFixed 14, badgeFixed 15] (badgeHoles label value' metadata)) =
        foldl xstep xinit (concat [badgeFixed 0, badgeFixed 1, badgeFixed 2, badgeFixed 3, badgeFixed 4, badgeFixed 5, badgeFixed 6, badgeFixed 7, badgeFixed 8, badgeFixed 9, badgeFixed 10, badgeFixed 11, badgeFixed 12, badgeFixed 13, badgeFixed 14, badgeFixed 15])"
    using s by (rule weave_scan) (simp add: badgeHoles_def Let_def)
  also have "\<dots> = badgeState 15" by (simp add: badge_scan_steps [unfolded One_nat_def])
  finally show ?thesis by (simp add: scan_def generateBadge_weave)
qed

lemma digits_valid: "0 \<le> n \<Longrightarrow> validChars (decimal n)"
proof (rule validChars_bmp)
  fix c
  assume "0 \<le> n" "c \<in> set (decimal n)"
  then have "48 \<le> c \<and> c \<le> 57" by (rule decimal_digits)
  then show "isBmpChar c" by (auto simp: isBmpChar_def word_le_def)
qed

lemma comment_valid:
  assumes "commentText (replaceAll (js ''-->'') arrowSubstitute item)"
  shows "validChars (metadataComment item)"
proof -
  have "validChars (js ''<!-- METADATA: '')" "validChars (js '' -->'')"
    by code_simp+
  then show ?thesis using assms by (simp add: metadataComment_def commentText_def validChars_append)
qed

lemma comments_valid:
  assumes "\<And>item. item \<in> set metadata \<Longrightarrow> commentText (replaceAll (js ''-->'') arrowSubstitute item)"
  shows "validChars (join [10] (map metadataComment metadata))"
  using assms
proof (induction metadata rule: induct_list012)
  case 1
  then show ?case by simp
next
  case (2 x)
  then show ?case using comment_valid [of x] by simp
next
  case (3 x y zs)
  have "validChars [10]" by (simp add: isBmpChar_def)
  then have "validChars ([10] @ join [10] (map metadataComment (y # zs)))"
    using 3 by (intro validChars_append) simp_all
  then show ?case using 3 comment_valid [of x] by (simp add: validChars_append)
qed

lemma badge_fixed_valid:
  "f \<in> set [badgeFixed 0, badgeFixed 1, badgeFixed 2, badgeFixed 3, badgeFixed 4, badgeFixed 5, badgeFixed 6, badgeFixed 7, badgeFixed 8, badgeFixed 9, badgeFixed 10, badgeFixed 11, badgeFixed 12, badgeFixed 13, badgeFixed 14, badgeFixed 15] \<Longrightarrow> validChars f"
  using badge_fixed_chars by (intro validChars_bmp) (auto simp: list_all_iff)

lemma badge_chars:
  assumes "plainText label" "plainText value'"
    "\<And>item. item \<in> set metadata \<Longrightarrow> commentText (replaceAll (js ''-->'') arrowSubstitute item)"
  shows "validChars (generateBadge label value' metadata)"
proof -
  have n: "0 \<le> getTextWidth label" "0 \<le> getTextWidth value'"
    "0 \<le> getTextWidth label + getTextWidth value'"
    "0 \<le> getTextWidth label div 2"
    "0 \<le> getTextWidth label + getTextWidth value' div 2"
    using getTextWidth_nonneg [of label] getTextWidth_nonneg [of value']
    by (simp_all add: pos_imp_zdiv_nonneg_iff add_nonneg_nonneg)
  have p: "validChars label" "validChars value'" using assms(1,2) by (simp_all add: plainText_def)
  have c: "validChars (join [10] (map metadataComment metadata))"
    using assms(3) by (rule comments_valid)
  have "list_all validChars (badgeHoles label value' metadata)"
    unfolding badgeHoles_def Let_def
    using n p c by (simp add: digits_valid)
  then have h: "\<And>t. t \<in> set (badgeHoles label value' metadata) \<Longrightarrow> validChars t"
    by (simp add: list_all_iff)
  show ?thesis unfolding generateBadge_weave using badge_fixed_valid h by (rule weave_valid)
qed

lemma join_occurs:
  "item \<in> set metadata \<Longrightarrow> \<exists>x y. join sep (map f metadata) = x @ f item @ y"
proof (induction metadata rule: induct_list012)
  case 1
  then show ?case by simp
next
  case (2 a)
  then have "join sep (map f [a]) = [] @ f item @ []" by simp
  then show ?case by blast
next
  case (3 a b zs)
  show ?case
  proof (cases "item = a")
    case True
    then have "join sep (map f (a # b # zs)) = [] @ f item @ (sep @ join sep (map f (b # zs)))"
      by simp
    then show ?thesis by blast
  next
    case False
    then obtain x y where "join sep (map f (b # zs)) = x @ f item @ y" using 3 by auto
    then have "join sep (map f (a # b # zs)) = (f a @ sep @ x) @ f item @ y" by simp
    then show ?thesis by blast
  qed
qed

lemma badge_holds_comment:
  assumes "item \<in> set metadata"
  shows "occursIn (metadataComment item) (generateBadge label value' metadata)"
proof -
  obtain x y where j: "join [10] (map metadataComment metadata) = x @ metadataComment item @ y"
    using join_occurs [OF assms] by blast
  have "\<exists>u v. weave [badgeFixed 0, badgeFixed 1, badgeFixed 2, badgeFixed 3, badgeFixed 4, badgeFixed 5, badgeFixed 6, badgeFixed 7, badgeFixed 8, badgeFixed 9, badgeFixed 10, badgeFixed 11, badgeFixed 12, badgeFixed 13, badgeFixed 14, badgeFixed 15] (badgeHoles label value' metadata) =
      u @ join [10] (map metadataComment metadata) @ v"
    unfolding badgeHoles_def Let_def
    by (simp only: weave.simps) (metis append.assoc)
  then obtain u v where "generateBadge label value' metadata = (u @ x) @ metadataComment item @ (y @ v)"
    using j by (auto simp: generateBadge_weave)
  then show ?thesis unfolding occursIn_iff by blast
qed

text \<open>
  C8, as the renderer has it. Every metadata string is embedded as a comment in which
  each \<open>-->\<close> is substituted: up to its last character the comment holds no \<open>-->\<close>, so
  it closes where it ends and nowhere before; and the comment of every metadata string
  stands in the document. The document is a function of the three inputs. It is
  well-formed when label and value consist of characters of XML other than \<open><\<close>, \<open>&\<close>
  and \<open>>\<close>, and every metadata string, after the substitution, consists of characters
  of XML and holds no \<open>--\<close>.
\<close>

theorem badge_comments_closed:
  "\<not> occursIn (js ''-->'') (butlast (metadataComment item)) \<and>
   (\<forall>m \<in> set metadata. occursIn (metadataComment m) (generateBadge label value' metadata)) \<and>
   (plainText label \<and> plainText value' \<and>
    (\<forall>m \<in> set metadata. commentText (replaceAll (js ''-->'') arrowSubstitute m)) \<longrightarrow>
      wellFormed (generateBadge label value' metadata))"
proof -
  have "wellFormed (generateBadge label value' metadata)"
    if "plainText label" "plainText value'"
      "\<forall>m \<in> set metadata. commentText (replaceAll (js ''-->'') arrowSubstitute m)"
  proof -
    have "scan (generateBadge label value' metadata) = badgeState 15"
      using that by (intro badge_scan) simp_all
    moreover have "validChars (generateBadge label value' metadata)"
      using that by (intro badge_chars) simp_all
    ultimately show ?thesis using badgeState_modes(3) by (simp add: wellFormed_def)
  qed
  then show ?thesis using comment_closes_at_end [of item] badge_holds_comment by blast
qed

theorem badge_comments_closed_witness:
  "wellFormed (generateBadge (js ''readers'') (js ''42'')
     [js ''/blog/post'', js ''a-->b'', [55357, 56832]]) \<and>
   occursIn (metadataComment (js ''a-->b''))
     (generateBadge (js ''readers'') (js ''42'') [js ''/blog/post'', js ''a-->b'', [55357, 56832]])"
proof -
  have "plainText (js ''readers'')" "plainText (js ''42'')"
    "commentText (replaceAll (js ''-->'') arrowSubstitute (js ''/blog/post''))"
    "commentText (replaceAll (js ''-->'') arrowSubstitute (js ''a-->b''))"
    "commentText (replaceAll (js ''-->'') arrowSubstitute [55357, 56832])"
    by code_simp+
  then show ?thesis
    using badge_comments_closed
      [of _ "[js ''/blog/post'', js ''a-->b'', [55357, 56832]]" "js ''readers''" "js ''42''"]
    by simp
qed

text \<open>
  The claim C8 as it is written fails. A page path with \<open>--\<close> in it, which the handler
  takes from the report and passes on as metadata, stays as it is in its comment, and
  the badge of the handler is not well-formed. Label and value are put into the
  document as they are, so the label \<open><\<close> gives a document that is not well-formed
  either.
\<close>

theorem dashes_in_page_path_counterexample:
  "status (result_response (fetch Map.empty sampleRequest sampleEnv sampleDashed)) = 200 \<and>
   body (result_response (fetch Map.empty sampleRequest sampleEnv sampleDashed)) =
     generateBadge (js ''readers'') (js ''42'') [js ''/my--post''] \<and>
   \<not> wellFormed (generateBadge (js ''readers'') (js ''42'') [js ''/my--post'']) \<and>
   \<not> wellFormed (generateBadge (js ''<'') (js ''42'') [])"
  by code_simp

section \<open>The label of the badge\<close>

lemma weave_label_box:
  "weave [f0, f1, f2, p @ q, r @ s, f5, f6, f7, f8, f9, f10, f11, f12, f13, f14, f15]
     [h0, h1, h2, h3, h4, h5, h6, h7, h8, h9, h10, h11, h12, h13, h14] =
   (f0 @ h0 @ f1 @ h1 @ f2 @ h2 @ p) @ (q @ h3 @ r) @
   (s @ h4 @ f5 @ h5 @ f6 @ h6 @ f7 @ h7 @ f8 @ h8 @ f9 @ h9 @ f10 @ h10 @ f11 @ h11 @ f12 @
    h12 @ f13 @ h13 @ f14 @ h14 @ f15)"
  by simp

lemma weave_label_shadow:
  "weave [f0, f1, f2, f3, f4, f5, f6, p @ q, f8, r @ s, f10, f11, f12, f13, f14, f15]
     [h0, h1, h2, h3, h4, h5, h6, h7, h8, h9, h10, h11, h12, h13, h14] =
   (f0 @ h0 @ f1 @ h1 @ f2 @ h2 @ f3 @ h3 @ f4 @ h4 @ f5 @ h5 @ f6 @ h6 @ p) @
   (q @ h7 @ f8 @ h8 @ r) @
   (s @ h9 @ f10 @ h10 @ f11 @ h11 @ f12 @ h12 @ f13 @ h13 @ f14 @ h14 @ f15)"
  by simp

lemma weave_label_text:
  "weave [f0, f1, f2, f3, f4, f5, f6, f7, f8, p @ q, f10, r @ s, f12, f13, f14, f15]
     [h0, h1, h2, h3, h4, h5, h6, h7, h8, h9, h10, h11, h12, h13, h14] =
   (f0 @ h0 @ f1 @ h1 @ f2 @ h2 @ f3 @ h3 @ f4 @ h4 @ f5 @ h5 @ f6 @ h6 @ f7 @ h7 @ f8 @ h8 @ p) @
   (q @ h9 @ f10 @ h10 @ r) @
   (s @ h11 @ f12 @ h12 @ f13 @ h13 @ f14 @ h14 @ f15)"
  by simp

lemma badge_fixed_split:
  \<open>badgeFixed 3 =
     (js ''" height="20" rx="3" fill="#fff"/>'' @ [10] @ js ''      </mask>'' @ [10] @
      js ''      <g mask="url(#a)">'' @ [10] @ js ''        '') @ js ''<rect width="''\<close>
  \<open>badgeFixed 4 = js ''" height="20" fill="#555"/>'' @ ([10] @ js ''        <rect x="'')\<close>
  \<open>badgeFixed 7 =
     (js ''" height="20" fill="url(#b)"/>'' @ [10] @ js ''      </g>'' @ [10] @
      js ''      <g fill="#fff" text-anchor="middle" font-family="DejaVu Sans,Verdana,Geneva,sans-serif" font-size="13">'' @
      [10] @ js ''        '') @ js ''<text x="''\<close>
  \<open>badgeFixed 8 = js ''" y="15" fill="#010101" fill-opacity=".3">''\<close>
  \<open>badgeFixed 9 = (js ''</text>'' @ [10] @ js ''        '') @ js ''<text x="''\<close>
  \<open>badgeFixed 9 = js ''</text>'' @ ([10] @ js ''        <text x="'')\<close>
  \<open>badgeFixed 10 = js ''" y="14">''\<close>
  \<open>badgeFixed 11 = js ''</text>'' @ ([10] @ js ''        <text x="'')\<close>
  by (simp_all add: badgeFixed_def js_def)

text \<open>
  Whatever label the renderer is given, the document holds the box of the label, in
  the width of the label, and the label in two text elements at the middle of the box:
  the shadow and the text.
\<close>

lemma label_in_badge:
  \<open>occursIn (js ''<rect width="'' @ decimal (getTextWidth label) @ js ''" height="20" fill="#555"/>'')
     (generateBadge label value' metadata)\<close>
  \<open>occursIn (js ''<text x="'' @ decimal (getTextWidth label div 2) @
       js ''" y="15" fill="#010101" fill-opacity=".3">'' @ label @ js ''</text>'')
     (generateBadge label value' metadata)\<close>
  \<open>occursIn (js ''<text x="'' @ decimal (getTextWidth label div 2) @ js ''" y="14">'' @ label @
       js ''</text>'')
     (generateBadge label value' metadata)\<close>
proof -
  show \<open>occursIn (js ''<rect width="'' @ decimal (getTextWidth label) @ js ''" height="20" fill="#555"/>'')
     (generateBadge label value' metadata)\<close>
    unfolding generateBadge_weave badgeHoles_def Let_def occursIn_iff
    by (subst badge_fixed_split(1), subst badge_fixed_split(2), subst weave_label_box) blast
  show \<open>occursIn (js ''<text x="'' @ decimal (getTextWidth label div 2) @
       js ''" y="15" fill="#010101" fill-opacity=".3">'' @ label @ js ''</text>'')
     (generateBadge label value' metadata)\<close>
    unfolding generateBadge_weave badgeHoles_def Let_def occursIn_iff
    by (subst badge_fixed_split(3), subst badge_fixed_split(4), subst badge_fixed_split(6),
        subst weave_label_shadow) blast
  show \<open>occursIn (js ''<text x="'' @ decimal (getTextWidth label div 2) @ js ''" y="14">'' @ label @
       js ''</text>'')
     (generateBadge label value' metadata)\<close>
    unfolding generateBadge_weave badgeHoles_def Let_def occursIn_iff
    by (subst badge_fixed_split(5), subst badge_fixed_split(7), subst badge_fixed_split(8),
        subst weave_label_text) blast
qed

lemma readers_texts:
  \<open>js ''<rect width="'' @ decimal (getTextWidth (js ''readers'')) @ js ''" height="20" fill="#555"/>'' =
     js ''<rect width="66" height="20" fill="#555"/>''\<close>
  \<open>js ''<text x="'' @ decimal (getTextWidth (js ''readers'') div 2) @
     js ''" y="15" fill="#010101" fill-opacity=".3">'' @ js ''readers'' @ js ''</text>'' =
     js ''<text x="33" y="15" fill="#010101" fill-opacity=".3">readers</text>''\<close>
  \<open>js ''<text x="'' @ decimal (getTextWidth (js ''readers'') div 2) @ js ''" y="14">'' @
     js ''readers'' @ js ''</text>'' =
     js ''<text x="33" y="14">readers</text>''\<close>
  by code_simp+

lemma readers_in_badge:
  \<open>occursIn (js ''<rect width="66" height="20" fill="#555"/>'')
     (generateBadge (js ''readers'') value' metadata)\<close>
  \<open>occursIn (js ''<text x="33" y="15" fill="#010101" fill-opacity=".3">readers</text>'')
     (generateBadge (js ''readers'') value' metadata)\<close>
  \<open>occursIn (js ''<text x="33" y="14">readers</text>'')
     (generateBadge (js ''readers'') value' metadata)\<close>
  using label_in_badge [of "js ''readers''" value' metadata] unfolding readers_texts .

text \<open>
  C10. Every response with status 200, rendered or taken from the cache, is the badge
  that \<open>generateBadge\<close> renders for the label \<open>readers\<close>, whatever the request, the page
  path and the report are. Its document holds the box of the label, 66 wide, and the
  text \<open>readers\<close> in the two text elements at the middle of that box. The renderer
  puts the label it is given into these two elements, whatever the label is.
\<close>

theorem success_label_readers:
  assumes "reachable cache" "status (result_response (fetch cache request env w)) = 200"
  shows
    \<open>(\<exists>counts' metadata.
        body (result_response (fetch cache request env w)) =
          generateBadge (js ''readers'') (formatNumber counts') metadata) \<and>
     occursIn (js ''<rect width="66" height="20" fill="#555"/>'')
       (body (result_response (fetch cache request env w))) \<and>
     occursIn (js ''<text x="33" y="15" fill="#010101" fill-opacity=".3">readers</text>'')
       (body (result_response (fetch cache request env w))) \<and>
     occursIn (js ''<text x="33" y="14">readers</text>'')
       (body (result_response (fetch cache request env w))) \<and>
     occursIn (js ''<text x="'' @ decimal (getTextWidth label div 2) @
         js ''" y="15" fill="#010101" fill-opacity=".3">'' @ label @ js ''</text>'')
       (generateBadge label value' items) \<and>
     occursIn (js ''<text x="'' @ decimal (getTextWidth label div 2) @ js ''" y="14">'' @ label @
         js ''</text>'')
       (generateBadge label value' items)\<close>
proof -
  have b: "body (badgeResponse c d) = generateBadge (js ''readers'') (formatNumber c) d" for c d
    by (simp add: badgeResponse_def new_Response_def)
  have "\<exists>c d. result_response (fetch cache request env w) = badgeResponse c d"
    using fetch_cases [OF refl, of cache request env w]
  proof (elim disjE exE conjE)
    fix resp
    assume h: "cache_match cache request = Some resp"
      "fetch cache request env w =
        \<lparr>result_response = resp, result_cache = cache, result_events = []\<rparr>"
    then have "cache (url request) = Some resp" by (simp add: cache_match_def split: if_splits)
    then obtain c d where "resp = badgeResponse c d" using reachable_badges [OF assms(1)] by blast
    then show ?thesis using h by auto
  qed (use assms(2) in auto)
  then obtain c d where
    r: "body (result_response (fetch cache request env w)) =
          generateBadge (js ''readers'') (formatNumber c) d"
    using b by auto
  show ?thesis
    using readers_in_badge [of "formatNumber c" d] label_in_badge(2,3) [of label value' items]
    unfolding r by blast
qed

theorem success_label_readers_witness:
  \<open>body (result_response (fetch Map.empty sampleRequest sampleEnv sampleWorld)) =
     generateBadge (js ''readers'') (js ''42'') [js ''/blog/post''] \<and>
   occursIn (js ''<text x="33" y="14">readers</text>'')
     (body (result_response (fetch Map.empty sampleRequest sampleEnv sampleWorld))) \<and>
   occursIn (js ''<text x="33" y="14">readers</text>'')
     (body (result_response
        (fetch (result_cache (fetch Map.empty sampleRequest sampleEnv sampleWorld)) sampleRequest
           sampleEnv sampleRefused)))\<close>
proof -
  let ?c = "result_cache (fetch Map.empty sampleRequest sampleEnv sampleWorld)"
  have s: "status (result_response (fetch Map.empty sampleRequest sampleEnv sampleWorld)) = 200"
    "status (result_response (fetch ?c sampleRequest sampleEnv sampleRefused)) = 200"
    by code_simp+
  have b: "body (result_response (fetch Map.empty sampleRequest sampleEnv sampleWorld)) =
     generateBadge (js ''readers'') (js ''42'') [js ''/blog/post'']"
    by code_simp
  have c: "reachable ?c" using reachable.empty by (rule reachable.request)
  show ?thesis
    using success_label_readers [OF reachable.empty s(1)] success_label_readers [OF c s(2)] b
    by blast
qed

end
